theory Spec2Isabelle
  imports Main "HOL-Library.AList"
begin

section \<open>Data model of the PDF conversion service (index.js)\<close>

text \<open>
  The service is a Node.js program: one thread, suspended only at \<^verbatim>\<open>await\<close>. Its state is
  the job tracker (\<^verbatim>\<open>conversionJobs\<close>, \<^verbatim>\<open>jobCounter\<close>) and the file system. The PDF
  renderer, the canvas, the image encoder (sharp) and the clock are external libraries; they
  are parameters of the model (record \<open>env\<close> below), and every theorem holds for all of them.
\<close>

type_synonym bytes = "nat list"

text \<open>An absolute path is the list of its components; \<^verbatim>\<open>path.join\<close> is \<open>path_join\<close> below.\<close>

type_synonym path = "string list"

definition digit :: "nat \<Rightarrow> char" where
  "digit n = ''0123456789'' ! n"

text \<open>Decimal rendering of a number, as in a template literal or \<^verbatim>\<open>toString()\<close>.\<close>

function show_nat :: "nat \<Rightarrow> string" where
  "show_nat n = (if n < 10 then [digit n] else show_nat (n div 10) @ [digit (n mod 10)])"
  by pat_completeness auto
termination
  by (relation "measure (\<lambda>n. n)") auto

declare show_nat.simps [simp del]

text \<open>\<^verbatim>\<open>req.body.directoryId || Date.now()\<close>: a non-empty string of the form, or a number.\<close>

datatype directory_id = IdString string | IdNumber nat

fun toString :: "directory_id \<Rightarrow> string" where
  "toString (IdString s) = s"
| "toString (IdNumber n) = show_nat n"

datatype job_status = Pending | Processing | Completed | Failed

text \<open>The fields of a job object that the status endpoint copies into its response. A field
  that JavaScript leaves \<^verbatim>\<open>undefined\<close> until it is assigned is an option.\<close>

record job_public =
  job_id :: nat
  directoryId :: directory_id
  status :: job_status
  progress :: nat
  processedPages :: nat
  totalPages :: nat
  outputPath :: "path option"
  startTime :: nat
  endTime :: "nat option"
  error :: "string option"
  errors :: "string list option"
  compressionRatio :: "string option"

text \<open>The job object of the tracker: the public fields, \<^verbatim>\<open>pdfPath\<close> and \<^verbatim>\<open>currentPage\<close>.\<close>

record job = job_public +
  pdfPath :: path
  currentPage :: "nat option"

datatype node = File bytes | Dir

datatype io_op =
    Access path | Readdir path | Unlink path | ReadFile path
  | WriteFile path bytes | Mkdir path

text \<open>
  The state of the process. \<open>immediates\<close> is the queue of \<^verbatim>\<open>setImmediate\<close> callbacks, each
  the arguments of one pending call of \<^verbatim>\<open>convertPDFToImages\<close>. Three fields are ghost state,
  written but never read by the program: \<open>opened\<close> holds the ids of the jobs whose document
  has been opened, \<open>history\<close> records the tracker (with \<open>opened\<close>) as a status poll could see
  it, one entry at every \<^verbatim>\<open>await\<close> and at the end of every handler, and \<open>io_log\<close> lists the
  calls made to the file system, in order.
\<close>

record world =
  conversionJobs :: "nat \<Rightarrow> job option"
  jobCounter :: nat
  files :: "(path \<times> node) list"
  immediates :: "(path \<times> directory_id \<times> nat) list"
  opened :: "nat set"
  history :: "((nat \<Rightarrow> job option) \<times> nat set) list"
  io_log :: "io_op list"

subsection \<open>External collaborators\<close>

text \<open>What pdf.js and the canvas do with page \<open>n\<close> of a document, in the order the pipeline
  calls them: \<^verbatim>\<open>getPage\<close> rejects, \<^verbatim>\<open>createCanvas\<close> throws, \<^verbatim>\<open>page.render\<close> rejects,
  \<^verbatim>\<open>canvas.toBuffer\<close> throws, or the page is rendered to raw image bytes; in the last case the
  second argument is what \<^verbatim>\<open>page.cleanup()\<close> throws, if it throws.\<close>

datatype page_outcome =
    GetPageRejects string
  | CanvasThrows string
  | RenderRejects string
  | ToBufferThrows string
  | Rendered bytes "string option"

record pdf_document =
  numPages :: nat
  getPage :: "nat \<Rightarrow> page_outcome"

datatype sharp_op =
    Resize nat nat string bool
  | Sharpen
  | Jpeg nat bool string bool bool bool
  | Png nat bool bool nat
  | Webp nat bool bool bool nat

text \<open>
  \<open>date_now\<close> is what \<^verbatim>\<open>new Date()\<close> and \<^verbatim>\<open>Date.now()\<close> return in a handler or a pipeline, and
  \<open>storage_now\<close> what \<^verbatim>\<open>Date.now()\<close> returns in multer's \<^verbatim>\<open>filename\<close> callback, which runs before
  the handler; \<open>io_fault\<close> makes a file-system
  call fail for a reason the modelled file tree does not show (permissions, a concurrent
  change); \<open>getDocument\<close> is pdf.js on the bytes of a file; \<open>sharp_toBuffer\<close> is the sharp
  pipeline (constructor, options and \<^verbatim>\<open>toBuffer\<close>) on a buffer; \<open>floor_percent p t\<close> is
  \<^verbatim>\<open>Math.floor((p / t) * 100)\<close> and \<open>toFixed2 a b\<close> is \<^verbatim>\<open>(a / b).toFixed(2)\<close> for \<open>b > 0\<close>, both in
  IEEE double arithmetic, which is not modelled.
\<close>

record env =
  date_now :: nat
  storage_now :: nat
  io_fault :: "io_op \<Rightarrow> string option"
  getDocument :: "bytes \<Rightarrow> string + pdf_document"
  sharp_toBuffer :: "bytes \<Rightarrow> sharp_op list \<Rightarrow> string + bytes"
  floor_percent :: "nat \<Rightarrow> nat \<Rightarrow> nat"
  toFixed2 :: "nat \<Rightarrow> nat \<Rightarrow> string"

subsection \<open>Asynchronous code: state, exceptions, suspension\<close>

text \<open>An async function is a function of the state that returns its value or the message of
  the error it throws (\<open>Inl\<close>), with the state it leaves.\<close>

type_synonym 'a io = "world \<Rightarrow> (string + 'a) \<times> world"

definition io_return :: "'a \<Rightarrow> 'a io" where
  "io_return x w = (Inr x, w)"

definition io_throw :: "string \<Rightarrow> 'a io" where
  "io_throw e w = (Inl e, w)"

definition io_bind :: "'a io \<Rightarrow> ('a \<Rightarrow> 'b io) \<Rightarrow> 'b io" where
  "io_bind m f w = (case m w of (Inl e, w') \<Rightarrow> (Inl e, w') | (Inr x, w') \<Rightarrow> f x w')"

definition try_catch :: "'a io \<Rightarrow> (string \<Rightarrow> 'a io) \<Rightarrow> 'a io" where
  "try_catch m h w = (case m w of (Inl e, w') \<Rightarrow> h e w' | (Inr x, w') \<Rightarrow> (Inr x, w'))"

definition io_lift :: "string + 'a \<Rightarrow> 'a io" where
  "io_lift r w = (r, w)"

definition modify :: "(world \<Rightarrow> world) \<Rightarrow> unit io" where
  "modify f w = (Inr (), f w)"

definition observe :: "world \<Rightarrow> world" where
  "observe w = w\<lparr>history := history w @ [(conversionJobs w, opened w)]\<rparr>"

text \<open>\<^verbatim>\<open>await m\<close>: the function is suspended, so the state is observable, then \<open>m\<close> completes.\<close>

definition await :: "'a io \<Rightarrow> 'a io" where
  "await m w = m (observe w)"

subsection \<open>Configuration\<close>

text \<open>
  \<^verbatim>\<open>path.join(p, name)\<close> for a name that comes from a request (POSIX): the name is split at
  \<^verbatim>\<open>/\<close>, empty components and \<^verbatim>\<open>.\<close> are dropped and \<^verbatim>\<open>..\<close> removes the last component (at the root
  it does nothing). Where the source joins a directory with a name that \<^verbatim>\<open>readdir\<close> returned,
  or with \<^verbatim>\<open><pageNum>.<format>\<close>, the name is one component and the model writes \<open>d @ [name]\<close>.
  The directory of the program, \<^verbatim>\<open>__dirname\<close>, is taken to be \<^verbatim>\<open>/app\<close>.
\<close>

fun split_slash :: "string \<Rightarrow> string \<Rightarrow> string list" where
  "split_slash acc [] = [rev acc]"
| "split_slash acc (c # cs) =
     (if c = CHR ''/'' then rev acc # split_slash [] cs else split_slash (c # acc) cs)"

definition path_step :: "path \<Rightarrow> string \<Rightarrow> path" where
  "path_step p s =
     (if s = [] \<or> s = ''.'' then p else if s = ''..'' then butlast p else p @ [s])"

definition path_join :: "path \<Rightarrow> string \<Rightarrow> path" where
  "path_join p name = foldl path_step p (split_slash [] name)"

definition dirname :: path where
  "dirname = [''app'']"

definition inputDir :: path where
  "inputDir = dirname @ [''pdfs'']"

definition outputDir :: path where
  "outputDir = dirname @ [''images'']"

definition imageFormat :: string where
  "imageFormat = ''jpeg''"

definition resize_enabled :: bool where
  "resize_enabled = True"

definition sharpening_enabled :: bool where
  "sharpening_enabled = True"

section \<open>The image optimizer\<close>

text \<open>The options \<^verbatim>\<open>optimizeImage\<close> puts on the sharp instance, from \<^verbatim>\<open>config.compressionOptions\<close>
  (the webp branch reads the jpeg quality, as the source does).\<close>

definition sharp_options :: "string \<Rightarrow> sharp_op list" where
  "sharp_options format =
     (if resize_enabled then [Resize 1200 1600 ''inside'' True] else []) @
     (if sharpening_enabled then [Sharpen] else []) @
     (if format = ''jpeg'' then [Jpeg 75 True ''4:2:0'' True True True]
      else if format = ''png'' then [Png 7 True True 75]
      else if format = ''webp'' then [Webp 75 False False True 5]
      else [])"

definition optimizeImage :: "env \<Rightarrow> bytes \<Rightarrow> nat \<Rightarrow> nat \<Rightarrow> string \<Rightarrow> bytes io" where
  "optimizeImage env imageBuffer pageNum npages format =
     try_catch
       (io_bind (await (io_lift (sharp_toBuffer env imageBuffer (sharp_options format))))
          (\<lambda>optimizedImageBuffer. io_return optimizedImageBuffer))
       (\<lambda>err. io_return imageBuffer)"

section \<open>The file system\<close>

text \<open>
  The file tree is an association list from paths to nodes; the root \<open>[]\<close> is the directory
  of the program. Every call is logged and may fail through \<open>io_fault\<close>; otherwise it fails
  as Node.js does on the tree (the messages are shortened to the error code and its text).
\<close>

definition fs_call :: "env \<Rightarrow> io_op \<Rightarrow> 'a io \<Rightarrow> 'a io" where
  "fs_call env opn m w =
     (let w' = w\<lparr>io_log := io_log w @ [opn]\<rparr>
      in case io_fault env opn of Some e \<Rightarrow> (Inl e, w') | None \<Rightarrow> m w')"

definition fs_access :: "env \<Rightarrow> path \<Rightarrow> unit io" where
  "fs_access env p = fs_call env (Access p)
     (\<lambda>w. case map_of (files w) p of
             None \<Rightarrow> (Inl ''ENOENT: no such file or directory'', w)
           | Some n \<Rightarrow> (Inr (), w))"

definition entries :: "(path \<times> node) list \<Rightarrow> path \<Rightarrow> string list" where
  "entries fs d =
     remdups (map (\<lambda>(p, n). last p) (filter (\<lambda>(p, n). p \<noteq> [] \<and> butlast p = d) fs))"

definition fs_readdir :: "env \<Rightarrow> path \<Rightarrow> string list io" where
  "fs_readdir env d = fs_call env (Readdir d)
     (\<lambda>w. case map_of (files w) d of
             None \<Rightarrow> (Inl ''ENOENT: no such file or directory'', w)
           | Some (File b) \<Rightarrow> (Inl ''ENOTDIR: not a directory'', w)
           | Some Dir \<Rightarrow> (Inr (entries (files w) d), w))"

definition fs_unlink :: "env \<Rightarrow> path \<Rightarrow> unit io" where
  "fs_unlink env p = fs_call env (Unlink p)
     (\<lambda>w. case map_of (files w) p of
             None \<Rightarrow> (Inl ''ENOENT: no such file or directory'', w)
           | Some Dir \<Rightarrow> (Inl ''EISDIR: illegal operation on a directory'', w)
           | Some (File b) \<Rightarrow> (Inr (), w\<lparr>files := AList.delete p (files w)\<rparr>))"

definition fs_readFile :: "env \<Rightarrow> path \<Rightarrow> bytes io" where
  "fs_readFile env p = fs_call env (ReadFile p)
     (\<lambda>w. case map_of (files w) p of
             None \<Rightarrow> (Inl ''ENOENT: no such file or directory'', w)
           | Some Dir \<Rightarrow> (Inl ''EISDIR: illegal operation on a directory'', w)
           | Some (File b) \<Rightarrow> (Inr b, w))"

definition fs_writeFile :: "env \<Rightarrow> path \<Rightarrow> bytes \<Rightarrow> unit io" where
  "fs_writeFile env p b = fs_call env (WriteFile p b)
     (\<lambda>w. if p = [] \<or> map_of (files w) p = Some Dir
           then (Inl ''EISDIR: illegal operation on a directory'', w)
           else if map_of (files w) (butlast p) \<noteq> Some Dir
           then (Inl ''ENOENT: no such file or directory'', w)
           else (Inr (), w\<lparr>files := AList.update p (File b) (files w)\<rparr>))"

definition path_prefixes :: "path \<Rightarrow> path list" where
  "path_prefixes p = map (\<lambda>k. take k p) [0..<Suc (length p)]"

fun mkdir_p :: "path list \<Rightarrow> (path \<times> node) list \<Rightarrow> string + (path \<times> node) list" where
  "mkdir_p [] fs = Inr fs"
| "mkdir_p (q # qs) fs =
     (case map_of fs q of
        None \<Rightarrow> mkdir_p qs (AList.update q Dir fs)
      | Some Dir \<Rightarrow> mkdir_p qs fs
      | Some (File b) \<Rightarrow>
          (if qs = [] then Inl ''EEXIST: file already exists''
           else Inl ''ENOTDIR: not a directory''))"

text \<open>\<^verbatim>\<open>fs.mkdir(p, { recursive: true })\<close>: every missing directory on the way to \<open>p\<close> is
  created; a regular file on the way is ENOTDIR, a regular file at \<open>p\<close> itself EEXIST.\<close>

definition fs_mkdir :: "env \<Rightarrow> path \<Rightarrow> unit io" where
  "fs_mkdir env p = fs_call env (Mkdir p)
     (\<lambda>w. case mkdir_p (path_prefixes p) (files w) of
             Inl e \<Rightarrow> (Inl e, w)
           | Inr fs' \<Rightarrow> (Inr (), w\<lparr>files := fs'\<rparr>))"

section \<open>Directories\<close>

definition ensureDirectoriesExist :: "env \<Rightarrow> unit io" where
  "ensureDirectoriesExist env =
     try_catch
       (io_bind (await (fs_mkdir env inputDir)) (\<lambda>u. await (fs_mkdir env outputDir)))
       (\<lambda>err. io_throw err)"

text \<open>The loop \<^verbatim>\<open>for (const file of files) await fs.unlink(path.join(dir, file))\<close>, which
  \<^verbatim>\<open>cleanupDirectories\<close> and \<^verbatim>\<open>cleanDirectoryImages\<close> both contain.\<close>

fun unlink_each :: "env \<Rightarrow> path \<Rightarrow> string list \<Rightarrow> unit io" where
  "unlink_each env d [] = io_return ()"
| "unlink_each env d (f # fs) =
     io_bind (await (fs_unlink env (d @ [f]))) (\<lambda>u. unlink_each env d fs)"

definition cleanupDirectories :: "env \<Rightarrow> unit io" where
  "cleanupDirectories env =
     try_catch
       (io_bind (await (fs_readdir env inputDir))
          (\<lambda>pdfFiles. unlink_each env inputDir pdfFiles))
       (\<lambda>err. io_return ())"

text \<open>The inner \<^verbatim>\<open>try { await fs.access(dirPath) } catch { return }\<close> is the first case
  distinction: a failed access returns normally.\<close>

definition cleanDirectoryImages :: "env \<Rightarrow> directory_id \<Rightarrow> unit io" where
  "cleanDirectoryImages env dirId =
     (let dirPath = path_join outputDir (toString dirId) in
      try_catch
        (\<lambda>w. case await (fs_access env dirPath) w of
                (Inl e, w') \<Rightarrow> (Inr (), w')
              | (Inr u, w') \<Rightarrow>
                  io_bind (await (fs_readdir env dirPath))
                    (\<lambda>fs. unlink_each env dirPath fs) w')
        (\<lambda>err. io_throw err))"

section \<open>The conversion pipeline\<close>

text \<open>An assignment to a field of the job object \<^verbatim>\<open>conversionJobs.get(jobId)\<close>.\<close>

definition update_job :: "nat \<Rightarrow> (job \<Rightarrow> job) \<Rightarrow> world \<Rightarrow> world" where
  "update_job jobId f w =
     w\<lparr>conversionJobs := (conversionJobs w)(jobId := map_option f (conversionJobs w jobId))\<rparr>"

text \<open>\<^verbatim>\<open>(a / b).toFixed(2)\<close> on two buffer sizes: JavaScript's division does not throw; 0/0 is
  NaN and a/0 is Infinity for a > 0, and \<^verbatim>\<open>toFixed\<close> prints them by name.\<close>

definition ratio_toFixed2 :: "env \<Rightarrow> nat \<Rightarrow> nat \<Rightarrow> string" where
  "ratio_toFixed2 env a b =
     (if b = 0 then (if a = 0 then ''NaN'' else ''Infinity'') else toFixed2 env a b)"

definition path_string :: "path \<Rightarrow> string" where
  "path_string p = concat (map (\<lambda>c. ''/'' @ c) p)"

definition not_found_message :: "path \<Rightarrow> string" where
  "not_found_message pdf = ''PDF file not found at path: '' @ path_string pdf"

text \<open>The \<^verbatim>\<open>catch (renderError)\<close> block of the page loop.\<close>

definition page_error :: "nat \<Rightarrow> nat \<Rightarrow> string \<Rightarrow> world \<Rightarrow> world" where
  "page_error jobId pageNum msg =
     update_job jobId (\<lambda>j. j\<lparr>errors :=
       Some ((case errors j of None \<Rightarrow> [] | Some es \<Rightarrow> es) @
             [''Error on page '' @ show_nat pageNum @ '': '' @ msg])\<rparr>)"

text \<open>
  One iteration of the page loop, for page \<open>pageNum\<close>, on the two running totals; it returns
  the totals as the iteration leaves them. \<^verbatim>\<open>getPage\<close> and \<^verbatim>\<open>createCanvas\<close> stand before the
  inner \<^verbatim>\<open>try\<close>, so their errors leave the loop; every error from \<^verbatim>\<open>page.render\<close> on goes to
  the inner \<^verbatim>\<open>catch\<close>, with the totals and the job as they are at the throw (an error of
  \<^verbatim>\<open>page.cleanup()\<close> comes after the page was counted).
\<close>

definition page_iteration ::
  "env \<Rightarrow> pdf_document \<Rightarrow> path \<Rightarrow> nat \<Rightarrow> nat \<Rightarrow> nat \<Rightarrow> nat \<times> nat \<Rightarrow> (nat \<times> nat) io" where
  "page_iteration env doc pdfOutputDir jobId npages pageNum sizes w =
     (let totalOriginalSize = fst sizes;
          totalCompressedSize = snd sizes;
          w1 = observe (update_job jobId (\<lambda>j. j\<lparr>currentPage := Some pageNum\<rparr>) w)
      in case getPage doc pageNum of
           GetPageRejects e \<Rightarrow> (Inl e, w1)
         | CanvasThrows e \<Rightarrow> (Inl e, w1)
         | RenderRejects e \<Rightarrow> (Inr sizes, page_error jobId pageNum e (observe w1))
         | ToBufferThrows e \<Rightarrow> (Inr sizes, page_error jobId pageNum e (observe w1))
         | Rendered rawImageData cleanup \<Rightarrow>
             (let format = imageFormat;
                  orig = totalOriginalSize + length rawImageData
              in case await (optimizeImage env rawImageData pageNum npages format)
                        (observe w1) of
                   (Inl e, w2) \<Rightarrow>
                     (Inr (orig, totalCompressedSize), page_error jobId pageNum e w2)
                 | (Inr optimizedImageData, w2) \<Rightarrow>
                     (let comp = totalCompressedSize + length optimizedImageData;
                          imagePath = pdfOutputDir @ [show_nat pageNum @ ''.'' @ format]
                      in case await (fs_writeFile env imagePath optimizedImageData) w2 of
                           (Inl e, w3) \<Rightarrow> (Inr (orig, comp), page_error jobId pageNum e w3)
                         | (Inr u, w3) \<Rightarrow>
                             (let w4 = update_job jobId
                                    (\<lambda>j. j\<lparr>processedPages := processedPages j + 1,
                                            progress :=
                                              floor_percent env (processedPages j + 1) npages\<rparr>)
                                    w3
                              in case cleanup of
                                   None \<Rightarrow> (Inr (orig, comp), w4)
                                 | Some e \<Rightarrow>
                                     (Inr (orig, comp), page_error jobId pageNum e w4)))))"

text \<open>\<^verbatim>\<open>for (let pageNum = 1; pageNum <= totalPages; pageNum++)\<close>, from \<open>pageNum\<close> on.\<close>

function page_loop ::
  "env \<Rightarrow> pdf_document \<Rightarrow> path \<Rightarrow> nat \<Rightarrow> nat \<Rightarrow> nat \<Rightarrow> nat \<times> nat \<Rightarrow> (nat \<times> nat) io" where
  "page_loop env doc pdfOutputDir jobId npages pageNum sizes w =
     (if pageNum \<le> npages then
        (case page_iteration env doc pdfOutputDir jobId npages pageNum sizes w of
           (Inl e, w') \<Rightarrow> (Inl e, w')
         | (Inr sizes', w') \<Rightarrow>
             page_loop env doc pdfOutputDir jobId npages (Suc pageNum) sizes' w')
      else (Inr sizes, w))"
  by pat_completeness auto
termination
  by (relation "measure (\<lambda>(env, doc, d, jobId, npages, pageNum, sizes, w). Suc npages - pageNum)")
     auto

declare page_loop.simps [simp del]

text \<open>
  The \<^verbatim>\<open>try\<close> block of \<^verbatim>\<open>convertPDFToImages\<close>, from \<^verbatim>\<open>job.status = 'processing'\<close> to the
  \<^verbatim>\<open>return\<close>. The ghost set \<open>opened\<close> is extended in the block that follows
  \<^verbatim>\<open>await loadingTask.promise\<close>.
\<close>

definition conversion :: "env \<Rightarrow> path \<Rightarrow> directory_id \<Rightarrow> nat \<Rightarrow> path io" where
  "conversion env pdf dirId jobId =
     (let pdfOutputDir = path_join outputDir (toString dirId) in
      io_bind (modify (update_job jobId (\<lambda>j. j\<lparr>status := Processing\<rparr>))) (\<lambda>u.
      io_bind (await (cleanDirectoryImages env dirId)) (\<lambda>u.
      io_bind (try_catch (await (fs_access env pdf))
                 (\<lambda>err. io_bind
                    (modify (update_job jobId
                       (\<lambda>j. j\<lparr>status := Failed, error := Some (not_found_message pdf)\<rparr>)))
                    (\<lambda>u. io_throw (not_found_message pdf)))) (\<lambda>u.
      io_bind (await (fs_readFile env pdf)) (\<lambda>data.
      io_bind (await (io_lift (getDocument env data))) (\<lambda>pdfDocument.
      io_bind (modify (\<lambda>w. update_job jobId
                 (\<lambda>j. j\<lparr>totalPages := numPages pdfDocument, processedPages := 0\<rparr>)
                 (w\<lparr>opened := insert jobId (opened w)\<rparr>))) (\<lambda>u.
      io_bind (await (fs_mkdir env pdfOutputDir)) (\<lambda>u.
      io_bind (page_loop env pdfDocument pdfOutputDir jobId (numPages pdfDocument) 1 (0, 0))
        (\<lambda>sizes.
      io_bind (modify (update_job jobId
                 (\<lambda>j. j\<lparr>status := Completed, outputPath := Some pdfOutputDir,
                         endTime := Some (date_now env), progress := 100,
                         compressionRatio :=
                           Some (ratio_toFixed2 env (fst sizes) (snd sizes))\<rparr>))) (\<lambda>u.
      io_return pdfOutputDir))))))))))"

text \<open>
  \<^verbatim>\<open>convertPDFToImages(pdfPath, directoryId, jobId)\<close>. The first case is the \<^verbatim>\<open>TypeError\<close> of
  \<^verbatim>\<open>job.status = ...\<close> on an id that the tracker does not hold; the handler is the outer
  \<^verbatim>\<open>catch\<close>, whose \<^verbatim>\<open>if (job)\<close> is the \<open>map_option\<close> of \<open>update_job\<close>.
\<close>

definition convertPDFToImages :: "env \<Rightarrow> path \<Rightarrow> directory_id \<Rightarrow> nat \<Rightarrow> path io" where
  "convertPDFToImages env pdf dirId jobId =
     try_catch
       (\<lambda>w. case conversionJobs w jobId of
          None \<Rightarrow> (Inl ''Cannot set properties of undefined (setting status)'', w)
        | Some j0 \<Rightarrow> conversion env pdf dirId jobId w)
       (\<lambda>err. io_bind
          (modify (update_job jobId
             (\<lambda>j. j\<lparr>status := Failed, error := Some err, endTime := Some (date_now env)\<rparr>)))
          (\<lambda>u. io_throw err))"

section \<open>The HTTP handlers\<close>

datatype body =
    ErrorBody string
  | MessageBody string
  | UploadBody string nat directory_id
  | JobBody job_public

type_synonym response = "nat \<times> body"

text \<open>The request of \<^verbatim>\<open>POST /api/upload\<close> as multer hands it to the handler: \<^verbatim>\<open>req.file.path\<close>
  when a file was stored, and \<^verbatim>\<open>req.body.directoryId\<close>.\<close>

record upload_request =
  req_file :: "path option"
  req_directoryId :: "string option"

definition post_upload :: "env \<Rightarrow> upload_request \<Rightarrow> response io" where
  "post_upload env req =
     try_catch
       (io_bind (await (ensureDirectoriesExist env)) (\<lambda>u.
          case req_file req of
            None \<Rightarrow> io_return (400, ErrorBody ''No PDF file uploaded'')
          | Some pdf \<Rightarrow>
              (\<lambda>w. let dirId = (case req_directoryId req of
                                  None \<Rightarrow> IdNumber (date_now env)
                                | Some s \<Rightarrow> if s = [] then IdNumber (date_now env)
                                            else IdString s);
                        jobId = Suc (jobCounter w);
                        j = \<lparr>job_id = jobId, directoryId = dirId, status = Pending,
                             progress = 0, processedPages = 0, totalPages = 0,
                             outputPath = None, startTime = date_now env, endTime = None,
                             error = None, errors = None, compressionRatio = None,
                             pdfPath = pdf, currentPage = None\<rparr>
                    in (Inr (200, UploadBody ''PDF uploaded successfully, conversion started''
                                   jobId dirId),
                        w\<lparr>jobCounter := jobId,
                          conversionJobs := (conversionJobs w)(jobId \<mapsto> j),
                          immediates := immediates w @ [(pdf, dirId, jobId)]\<rparr>))))
       (\<lambda>err. io_return (500, ErrorBody err))"

text \<open>
  The multipart request as the client sends it: the bytes of the field \<^verbatim>\<open>pdf\<close> and the form
  field \<^verbatim>\<open>directoryId\<close> (taken to precede the file, so that multer's \<^verbatim>\<open>filename\<close> callback sees
  it). \<^verbatim>\<open>upload.single('pdf')\<close> stores the file as \<^verbatim>\<open>path.join(destination, filename)\<close>, which
  is \<^verbatim>\<open>pdfs/<directoryId or Date.now()>.pdf\<close>, and hands the handler \<^verbatim>\<open>req.file\<close>; when the storage
  fails, express answers 500 and the handler does not run.
\<close>

record multipart_request =
  part_pdf :: "bytes option"
  part_directoryId :: "string option"

definition multer_single :: "env \<Rightarrow> multipart_request \<Rightarrow> upload_request io" where
  "multer_single env mp =
     (case part_pdf mp of
        None \<Rightarrow> io_return \<lparr>req_file = None, req_directoryId = part_directoryId mp\<rparr>
      | Some content \<Rightarrow>
          (let dirId = (case part_directoryId mp of
                          None \<Rightarrow> IdNumber (storage_now env)
                        | Some s \<Rightarrow> if s = [] then IdNumber (storage_now env) else IdString s);
               p = path_join inputDir (toString dirId @ ''.pdf'')
           in io_bind (fs_writeFile env p content)
                (\<lambda>u. io_return \<lparr>req_file = Some p, req_directoryId = part_directoryId mp\<rparr>)))"

definition upload_route :: "env \<Rightarrow> multipart_request \<Rightarrow> response io" where
  "upload_route env mp =
     try_catch (io_bind (await (multer_single env mp)) (\<lambda>req. post_upload env req))
       (\<lambda>err. io_return (500, ErrorBody err))"

text \<open>
  A JavaScript string as the list of its UTF-16 code units; \<open>utf16\<close> is the string of an ASCII
  text. \<^verbatim>\<open>parseInt\<close> without a radix skips leading white space (the white space and line
  terminators of ECMAScript), reads a sign, takes \<^verbatim>\<open>0x\<close> or \<^verbatim>\<open>0X\<close> for base 16, then reads the
  longest run of digits; \<open>None\<close> is NaN. The result is exact (a double rounds beyond 2^53, far
  above any job id).
\<close>

type_synonym js_string = "nat list"

definition utf16 :: "string \<Rightarrow> js_string" where
  "utf16 s = map of_char s"

definition is_space :: "nat \<Rightarrow> bool" where
  "is_space c =
     (c \<in> {9, 10, 11, 12, 13, 32, 160, 5760, 8232, 8233, 8239, 8287, 12288, 65279} \<or>
      (8192 \<le> c \<and> c \<le> 8202))"

definition digit_val :: "nat \<Rightarrow> nat option" where
  "digit_val k =
     (if 48 \<le> k \<and> k \<le> 57 then Some (k - 48)
      else if 97 \<le> k \<and> k \<le> 102 then Some (k - 87)
      else if 65 \<le> k \<and> k \<le> 70 then Some (k - 55)
      else None)"

fun parse_digits :: "nat \<Rightarrow> js_string \<Rightarrow> nat option \<Rightarrow> nat option" where
  "parse_digits r [] acc = acc"
| "parse_digits r (c # cs) acc =
     (case digit_val c of
        None \<Rightarrow> acc
      | Some d \<Rightarrow>
          if d < r then parse_digits r cs (Some ((case acc of None \<Rightarrow> 0 | Some a \<Rightarrow> a) * r + d))
          else acc)"

definition parseInt :: "js_string \<Rightarrow> int option" where
  "parseInt s =
     (let t = dropWhile is_space s;
          neg = (take 1 t = utf16 ''-'');
          u = (if take 1 t = utf16 ''-'' \<or> take 1 t = utf16 ''+'' then drop 1 t else t);
          hex = (take 2 u = utf16 ''0x'' \<or> take 2 u = utf16 ''0X'')
      in case parse_digits (if hex then 16 else 10) (if hex then drop 2 u else u) None of
           None \<Rightarrow> None
         | Some n \<Rightarrow> Some (if neg then - int n else int n))"

text \<open>\<^verbatim>\<open>conversionJobs.get(x)\<close> for a number \<open>x\<close>: the keys are the positive integers that
  \<^verbatim>\<open>++jobCounter\<close> produced.\<close>

definition jobs_get :: "world \<Rightarrow> int option \<Rightarrow> job option" where
  "jobs_get w x =
     (case x of None \<Rightarrow> None | Some i \<Rightarrow> if i < 0 then None else conversionJobs w (nat i))"

definition get_job :: "js_string \<Rightarrow> response io" where
  "get_job param w =
     (case jobs_get w (parseInt param) of
        None \<Rightarrow> (Inr (404, ErrorBody ''Job not found''), w)
      | Some j \<Rightarrow>
          (Inr (200, JobBody
             \<lparr>job_id = job_id j, directoryId = directoryId j, status = status j,
              progress = progress j, processedPages = processedPages j,
              totalPages = totalPages j, outputPath = outputPath j, startTime = startTime j,
              endTime = endTime j, error = error j, errors = errors j,
              compressionRatio = compressionRatio j\<rparr>), w))"

definition post_maintenance_cleanup :: "env \<Rightarrow> response io" where
  "post_maintenance_cleanup env =
     try_catch
       (io_bind (await (cleanupDirectories env))
          (\<lambda>u. io_return (200, MessageBody ''All temporary directories cleaned successfully'')))
       (\<lambda>err. io_return (500, ErrorBody err))"

text \<open>The callback of \<^verbatim>\<open>app.listen\<close>; its \<^verbatim>\<open>catch\<close> ends the process, which here is an error
  result.\<close>

definition listen_callback :: "env \<Rightarrow> unit io" where
  "listen_callback env =
     try_catch
       (io_bind (await (ensureDirectoriesExist env)) (\<lambda>u. await (cleanupDirectories env)))
       (\<lambda>err. io_throw err)"

section \<open>The process as a sequence of operations\<close>

text \<open>
  An operation is the start of the server, one request, or the run of the oldest \<^verbatim>\<open>setImmediate\<close> callback, which is
  \<^verbatim>\<open>convertPDFToImages(...).catch(log)\<close>. Each operation takes its own environment. A pipeline
  is run as one operation; the states it passes through at its suspension points are in
  \<open>history\<close>. A pipeline writes to the job object of its own id only, so what \<open>history\<close> shows of
  one job does not depend on how the pipelines of other jobs are interleaved with it.
\<close>

datatype operation =
    Startup
  | Upload multipart_request
  | JobStatus js_string
  | MaintenanceCleanup
  | RunImmediate

fun exec :: "env \<Rightarrow> operation \<Rightarrow> world \<Rightarrow> world" where
  "exec env Startup w = observe (snd (listen_callback env w))"
| "exec env (Upload mp) w = observe (snd (upload_route env mp w))"
| "exec env (JobStatus param) w = observe (snd (get_job param w))"
| "exec env MaintenanceCleanup w = observe (snd (post_maintenance_cleanup env w))"
| "exec env RunImmediate w =
     (case immediates w of
        [] \<Rightarrow> w
      | (pdf, dirId, jobId) # rest \<Rightarrow>
          observe (snd (convertPDFToImages env pdf dirId jobId (w\<lparr>immediates := rest\<rparr>))))"

fun run :: "(env \<times> operation) list \<Rightarrow> world \<Rightarrow> world" where
  "run [] w = w"
| "run (eo # ops) w = run ops (exec (fst eo) (snd eo) w)"

definition initial_world :: world where
  "initial_world =
     \<lparr>conversionJobs = (\<lambda>k. None), jobCounter = 0, files = [([], Dir), (dirname, Dir)],
      immediates = [],
      opened = {}, history = [], io_log = []\<rparr>"

definition observations :: "world \<Rightarrow> ((nat \<Rightarrow> job option) \<times> nat set) list" where
  "observations w = history w @ [(conversionJobs w, opened w)]"

section \<open>Invariants of the job tracker\<close>

text \<open>
  The definitions of this section are used in the proofs only. \<open>forward\<close> is the order of the
  job states: \<^verbatim>\<open>pending\<close>, then \<^verbatim>\<open>processing\<close>, then one of \<^verbatim>\<open>completed\<close> and \<^verbatim>\<open>failed\<close>, which are
  final. \<open>job_ok\<close> is what holds of one job in one observation, \<open>job_step\<close> what holds of one job
  in an earlier and a later observation.
\<close>

fun forward :: "job_status \<Rightarrow> job_status \<Rightarrow> bool" where
  "forward Pending s = True"
| "forward Processing s = (s \<noteq> Pending)"
| "forward Completed s = (s = Completed)"
| "forward Failed s = (s = Failed)"

definition job_ok :: "nat set \<Rightarrow> nat \<Rightarrow> job \<Rightarrow> bool" where
  "job_ok ops k j =
     (processedPages j \<le> totalPages j \<and>
      (k \<notin> ops \<longrightarrow> processedPages j = 0 \<and> totalPages j = 0) \<and>
      ((outputPath j \<noteq> None) = (status j = Completed)) \<and>
      (status j = Pending \<longrightarrow> k \<notin> ops))"

definition job_step :: "job \<Rightarrow> job \<Rightarrow> bool" where
  "job_step j j' = (forward (status j) (status j') \<and> processedPages j \<le> processedPages j')"

definition snap_ok :: "(nat \<Rightarrow> job option) \<times> nat set \<Rightarrow> bool" where
  "snap_ok s = (\<forall>k j. fst s k = Some j \<longrightarrow> job_ok (snd s) k j)"

definition snap_step ::
  "(nat \<Rightarrow> job option) \<times> nat set \<Rightarrow> (nat \<Rightarrow> job option) \<times> nat set \<Rightarrow> bool" where
  "snap_step s t = (\<forall>k j. fst s k = Some j \<longrightarrow> (\<exists>j'. fst t k = Some j' \<and> job_step j j'))"

definition good :: "world \<Rightarrow> bool" where
  "good w = (sorted_wrt snap_step (observations w) \<and> (\<forall>s\<in>set (observations w). snap_ok s))"

text \<open>\<open>stutter w w'\<close>: from \<open>w\<close> to \<open>w'\<close> only the file system has changed, and polls have
  seen the tracker of \<open>w\<close> some more times.\<close>

definition stutter :: "world \<Rightarrow> world \<Rightarrow> bool" where
  "stutter w w' =
     (\<exists>n f l. w' = w\<lparr>history := history w @ replicate n (conversionJobs w, opened w),
                      files := f, io_log := l\<rparr>)"

definition stutters :: "'a io \<Rightarrow> bool" where
  "stutters m = (\<forall>w. stutter w (snd (m w)))"

text \<open>\<open>hoare P m Q E\<close>: from a state with \<open>P\<close>, \<open>m\<close> returns in a state with \<open>Q\<close> or throws in a state
  with \<open>E\<close>.\<close>

definition hoare ::
  "(world \<Rightarrow> bool) \<Rightarrow> 'a io \<Rightarrow> ('a \<Rightarrow> world \<Rightarrow> bool) \<Rightarrow> (string \<Rightarrow> world \<Rightarrow> bool) \<Rightarrow> bool" where
  "hoare P m Q E =
     (\<forall>w. P w \<longrightarrow> (case m w of (Inl e, w') \<Rightarrow> E e w' | (Inr x, w') \<Rightarrow> Q x w'))"

definition frame :: "nat \<Rightarrow> world \<Rightarrow> world \<Rightarrow> bool" where
  "frame k w0 w =
     (jobCounter w = jobCounter w0 \<and> immediates w = immediates w0 \<and>
      (\<forall>k'. k' \<noteq> k \<longrightarrow> conversionJobs w k' = conversionJobs w0 k' \<and>
                         (k' \<in> opened w) = (k' \<in> opened w0)))"

text \<open>The state of the pipeline of job \<open>k\<close> that started in \<open>w0\<close>: the trace is good, nothing
  but job \<open>k\<close> has changed, and job \<open>k\<close> satisfies \<open>C\<close>.\<close>

definition at :: "nat \<Rightarrow> world \<Rightarrow> (bool \<Rightarrow> job \<Rightarrow> bool) \<Rightarrow> world \<Rightarrow> bool" where
  "at k w0 C w =
     (good w \<and> frame k w0 w \<and> (\<exists>j. conversionJobs w k = Some j \<and> C (k \<in> opened w) j))"

definition Cpend :: "bool \<Rightarrow> job \<Rightarrow> bool" where
  "Cpend b j = (status j = Pending \<and> \<not> b)"

definition Cpre :: "bool \<Rightarrow> job \<Rightarrow> bool" where
  "Cpre b j = (status j = Processing \<and> \<not> b)"

definition Crun :: "nat \<Rightarrow> nat \<Rightarrow> bool \<Rightarrow> job \<Rightarrow> bool" where
  "Crun npages n b j =
     (status j = Processing \<and> b \<and> totalPages j = npages \<and> processedPages j \<le> n \<and> n \<le> npages)"

definition Cexc :: "bool \<Rightarrow> job \<Rightarrow> bool" where
  "Cexc b j = (status j = Processing \<or> status j = Failed)"

definition Cany :: "bool \<Rightarrow> job \<Rightarrow> bool" where
  "Cany b j = True"

definition task_id :: "path \<times> directory_id \<times> nat \<Rightarrow> nat" where
  "task_id t = snd (snd t)"

definition sys_inv :: "world \<Rightarrow> bool" where
  "sys_inv w =
     (good w \<and>
      (\<forall>k. jobCounter w < k \<longrightarrow> conversionJobs w k = None \<and> k \<notin> opened w) \<and>
      distinct (map task_id (immediates w)) \<and>
      (\<forall>t\<in>set (immediates w). \<exists>j. conversionJobs w (task_id t) = Some j \<and>
           status j = Pending \<and> task_id t \<notin> opened w))"

section \<open>A concrete run\<close>

text \<open>
  A one-page document whose page renders, an environment in which nothing fails, and a run:
  the server starts, the document is uploaded under the directory id 42, and its pipeline
  runs. \<open>example_started\<close> is the state after the start, \<open>example_uploaded\<close> the state after the
  upload, and \<open>example_request\<close> what multer hands the upload handler for this upload.
  \<open>view k\<close> is what an observation shows of job \<open>k\<close>: status, \<^verbatim>\<open>processedPages\<close>, \<^verbatim>\<open>totalPages\<close>
  and \<^verbatim>\<open>outputPath\<close>, and whether its document has been opened.
\<close>

definition example_document :: pdf_document where
  "example_document =
     \<lparr>numPages = 1, getPage = (\<lambda>n. Rendered [255, 216, 255, 224] None)\<rparr>"

definition example_env :: env where
  "example_env =
     \<lparr>date_now = 1000, storage_now = 999, io_fault = (\<lambda>opn. None),
      getDocument = (\<lambda>b. Inr example_document),
      sharp_toBuffer = (\<lambda>b ops. Inr (take 2 b)),
      floor_percent = (\<lambda>p t. p * 100 div t),
      toFixed2 = (\<lambda>a b. ''2.00'')\<rparr>"

definition example_upload :: multipart_request where
  "example_upload = \<lparr>part_pdf = Some [37, 80, 68, 70], part_directoryId = Some ''42''\<rparr>"

definition example_request :: upload_request where
  "example_request =
     \<lparr>req_file = Some [''app'', ''pdfs'', ''42.pdf''], req_directoryId = Some ''42''\<rparr>"

definition example_started :: world where
  "example_started = exec example_env Startup initial_world"

definition example_uploaded :: world where
  "example_uploaded = exec example_env (Upload example_upload) example_started"

definition example_run :: "(env \<times> operation) list" where
  "example_run =
     [(example_env, Startup), (example_env, Upload example_upload), (example_env, RunImmediate)]"

definition view ::
  "nat \<Rightarrow> (nat \<Rightarrow> job option) \<times> nat set \<Rightarrow>
   (job_status \<times> nat \<times> nat \<times> path option) option \<times> bool" where
  "view k s =
     (map_option (\<lambda>j. (status j, processedPages j, totalPages j, outputPath j)) (fst s k),
      k \<in> snd s)"

definition example_views :: "((job_status \<times> nat \<times> nat \<times> path option) option \<times> bool) list" where
  "example_views =
     [(None, False), (None, False), (None, False), (None, False), (None, False),
      (None, False), (None, False), (None, False), (None, False), (None, False),
      (Some (Pending, 0, 0, None), False),
      (Some (Processing, 0, 0, None), False), (Some (Processing, 0, 0, None), False),
      (Some (Processing, 0, 0, None), False), (Some (Processing, 0, 0, None), False),
      (Some (Processing, 0, 0, None), False),
      (Some (Processing, 0, 1, None), True), (Some (Processing, 0, 1, None), True),
      (Some (Processing, 0, 1, None), True), (Some (Processing, 0, 1, None), True),
      (Some (Processing, 0, 1, None), True), (Some (Processing, 0, 1, None), True),
      (Some (Completed, 1, 1, Some [''app'', ''images'', ''42'']), True),
      (Some (Completed, 1, 1, Some [''app'', ''images'', ''42'']), True)]"

section \<open>Auxiliary notions for the properties\<close>


text \<open>The tree \<open>fs\<close> without the entries \<open>names\<close> of the directory \<open>d\<close>; an environment in which no
  call of the file system fails by \<open>io_fault\<close>; a directory all of whose entries are regular
  files.\<close>

definition delete_all :: "path \<Rightarrow> string list \<Rightarrow> (path \<times> node) list \<Rightarrow> (path \<times> node) list" where
  "delete_all d names fs = foldl (\<lambda>fs f. AList.delete (d @ [f]) fs) fs names"

definition fault_free :: "env \<Rightarrow> bool" where
  "fault_free env = (\<forall>opn. io_fault env opn = None)"

definition only_files :: "(path \<times> node) list \<Rightarrow> path \<Rightarrow> bool" where
  "only_files fs d = (\<forall>f\<in>set (entries fs d). \<exists>b. map_of fs (d @ [f]) = Some (File b))"

text \<open>The environment of the concrete run, except that the uploaded file cannot be deleted
  (it is in use).\<close>

definition busy_env :: env where
  "busy_env =
     example_env\<lparr>io_fault :=
       (\<lambda>opn. if opn = Unlink [''app'', ''pdfs'', ''42.pdf'']
              then Some ''EBUSY: resource busy or locked'' else None)\<rparr>"

section \<open>Properties\<close>

subsection \<open>The image optimizer\<close>

lemma optimizeImage_eq:
  "optimizeImage env imageBuffer pageNum npages format w =
     (Inr (case sharp_toBuffer env imageBuffer (sharp_options format) of
             Inl e \<Rightarrow> imageBuffer | Inr b \<Rightarrow> b), observe w)"
  by (simp add: optimizeImage_def try_catch_def io_bind_def await_def io_lift_def
      io_return_def split: sum.split)

text \<open>
  Claim C3. For every input buffer, page number, page count and format, whatever the encoder
  does, \<^verbatim>\<open>optimizeImage\<close> returns a value and never an error: the encoder's bytes when it
  succeeds and the input buffer itself when it fails, and the job records are left as they
  were.
\<close>

theorem optimizeImage_never_throws:
  "\<exists>w'. optimizeImage env imageBuffer pageNum npages format w =
          (Inr (case sharp_toBuffer env imageBuffer (sharp_options format) of
                  Inl e \<Rightarrow> imageBuffer | Inr b \<Rightarrow> b), w') \<and>
        conversionJobs w' = conversionJobs w"
  by (simp add: optimizeImage_eq observe_def)

subsection \<open>The trace of the job tracker\<close>

lemma forward_refl [simp]: "forward s s"
  by (cases s) auto

lemma forward_trans: "forward a b \<Longrightarrow> forward b c \<Longrightarrow> forward a c"
  by (cases a; cases b; cases c) auto

lemma job_step_refl [simp]: "job_step j j"
  by (simp add: job_step_def)

lemma job_step_trans: "job_step a b \<Longrightarrow> job_step b c \<Longrightarrow> job_step a c"
  by (auto simp: job_step_def intro: forward_trans)

lemma snap_step_refl [simp]: "snap_step s s"
  by (simp add: snap_step_def)

lemma snap_step_trans: "snap_step a b \<Longrightarrow> snap_step b c \<Longrightarrow> snap_step a c"
  unfolding snap_step_def by (meson job_step_trans)

lemma stutter_refl [simp]: "stutter w w"
proof -
  have "w = w\<lparr>history := history w @ replicate 0 (conversionJobs w, opened w),
              files := files w, io_log := io_log w\<rparr>"
    by simp
  then show ?thesis unfolding stutter_def by blast
qed

lemma stutter_trans:
  assumes "stutter a b" and "stutter b c"
  shows "stutter a c"
proof -
  from assms(1) obtain n f l where
    b: "b = a\<lparr>history := history a @ replicate n (conversionJobs a, opened a),
              files := f, io_log := l\<rparr>"
    unfolding stutter_def by blast
  from assms(2) obtain m g k where
    c: "c = b\<lparr>history := history b @ replicate m (conversionJobs b, opened b),
              files := g, io_log := k\<rparr>"
    unfolding stutter_def by blast
  have "c = a\<lparr>history := history a @ replicate (n + m) (conversionJobs a, opened a),
              files := g, io_log := k\<rparr>"
    by (simp add: b c replicate_add)
  then show ?thesis unfolding stutter_def by blast
qed

lemma stutter_observe [simp]: "stutter w (observe w)"
proof -
  have "observe w = w\<lparr>history := history w @ replicate 1 (conversionJobs w, opened w),
              files := files w, io_log := io_log w\<rparr>"
    by (simp add: observe_def)
  then show ?thesis unfolding stutter_def by blast
qed

lemma stutter_fs: "stutter w (w\<lparr>files := f\<rparr>)" "stutter w (w\<lparr>io_log := l\<rparr>)"
proof -
  have "w\<lparr>files := f\<rparr> = w\<lparr>history := history w @ replicate 0 (conversionJobs w, opened w),
              files := f, io_log := io_log w\<rparr>"
    by simp
  then show "stutter w (w\<lparr>files := f\<rparr>)" unfolding stutter_def by blast
  have "w\<lparr>io_log := l\<rparr> = w\<lparr>history := history w @ replicate 0 (conversionJobs w, opened w),
              files := files w, io_log := l\<rparr>"
    by simp
  then show "stutter w (w\<lparr>io_log := l\<rparr>)" unfolding stutter_def by blast
qed

lemma stuttersI: "(\<And>w. stutter w (snd (m w))) \<Longrightarrow> stutters m"
  by (simp add: stutters_def)

lemma stuttersD: "stutters m \<Longrightarrow> m w = (r, w') \<Longrightarrow> stutter w w'"
  unfolding stutters_def by (drule spec [of _ w]) simp

lemma stutters_return [simp]: "stutters (io_return x)"
  by (simp add: stutters_def io_return_def)

lemma stutters_throw [simp]: "stutters (io_throw e)"
  by (simp add: stutters_def io_throw_def)

lemma stutters_lift [simp]: "stutters (io_lift r)"
  by (simp add: stutters_def io_lift_def)

lemma stutters_bind:
  assumes "stutters m" and "\<And>x. stutters (f x)"
  shows "stutters (io_bind m f)"
proof (rule stuttersI)
  fix w
  obtain r w1 where m: "m w = (r, w1)" by (cases "m w")
  have s1: "stutter w w1" using stuttersD [OF assms(1) m] .
  show "stutter w (snd (io_bind m f w))"
  proof (cases r)
    case (Inl e)
    then show ?thesis using m s1 by (simp add: io_bind_def)
  next
    case (Inr x)
    have "stutter w1 (snd (f x w1))" using assms(2) by (simp add: stutters_def)
    then have "stutter w (snd (f x w1))" using s1 stutter_trans by blast
    then show ?thesis using m Inr by (simp add: io_bind_def)
  qed
qed

lemma stutters_try:
  assumes "stutters m" and "\<And>e. stutters (h e)"
  shows "stutters (try_catch m h)"
proof (rule stuttersI)
  fix w
  obtain r w1 where m: "m w = (r, w1)" by (cases "m w")
  have s1: "stutter w w1" using stuttersD [OF assms(1) m] .
  show "stutter w (snd (try_catch m h w))"
  proof (cases r)
    case (Inr x)
    then show ?thesis using m s1 by (simp add: try_catch_def)
  next
    case (Inl e)
    have "stutter w1 (snd (h e w1))" using assms(2) by (simp add: stutters_def)
    then have "stutter w (snd (h e w1))" using s1 stutter_trans by blast
    then show ?thesis using m Inl by (simp add: try_catch_def)
  qed
qed

lemma stutters_await: "stutters m \<Longrightarrow> stutters (await m)"
  unfolding stutters_def await_def
  using stutter_observe stutter_trans by blast

lemma stutters_fs_call:
  assumes "stutters m"
  shows "stutters (fs_call env opn m)"
proof (rule stuttersI)
  fix w :: world
  let ?w = "w\<lparr>io_log := io_log w @ [opn]\<rparr>"
  have a: "stutter w ?w" by (rule stutter_fs)
  have "stutter ?w (snd (m ?w))" using assms by (simp add: stutters_def)
  then have "stutter w (snd (m ?w))" using a stutter_trans by blast
  then show "stutter w (snd (fs_call env opn m w))"
    using a by (simp add: fs_call_def Let_def split: option.split)
qed

lemma stutters_fs [simp]:
  "stutters (fs_access env p)" "stutters (fs_readdir env p)" "stutters (fs_unlink env p)"
  "stutters (fs_readFile env p)" "stutters (fs_writeFile env p b)" "stutters (fs_mkdir env p)"
  unfolding fs_access_def fs_readdir_def fs_unlink_def fs_readFile_def fs_writeFile_def
    fs_mkdir_def
  by (rule stutters_fs_call, rule stuttersI,
      simp add: stutter_fs split: option.split node.split sum.split)+

lemma stutters_unlink_each [simp]: "stutters (unlink_each env d fs)"
  by (induction fs) (simp_all add: stutters_bind stutters_await)

lemma stutters_cleanupDirectories [simp]: "stutters (cleanupDirectories env)"
  by (simp add: cleanupDirectories_def stutters_try stutters_bind stutters_await)

lemma stutters_ensureDirectoriesExist [simp]: "stutters (ensureDirectoriesExist env)"
  by (simp add: ensureDirectoriesExist_def stutters_try stutters_bind stutters_await)

lemma stutters_optimizeImage [simp]: "stutters (optimizeImage env b n t f)"
  by (simp add: optimizeImage_def stutters_try stutters_bind stutters_await)

lemma stutters_cleanDirectoryImages [simp]: "stutters (cleanDirectoryImages env d)"
proof -
  let ?p = "path_join outputDir (toString d)"
  have "stutters (\<lambda>w. case await (fs_access env ?p) w of
                (Inl e, w') \<Rightarrow> (Inr (), w')
              | (Inr u, w') \<Rightarrow>
                  io_bind (await (fs_readdir env ?p))
                    (\<lambda>fs. unlink_each env ?p fs) w')"
  proof (rule stuttersI)
    fix w
    obtain r w1 where m: "await (fs_access env ?p) w = (r, w1)"
      by (cases "await (fs_access env ?p) w")
    have "stutters (await (fs_access env ?p))" by (simp add: stutters_await)
    then have s1: "stutter w w1" using m by (rule stuttersD)
    have "stutters (io_bind (await (fs_readdir env ?p)) (\<lambda>fs. unlink_each env ?p fs))"
      by (rule stutters_bind) (simp_all add: stutters_await)
    then have "stutter w1 (snd (io_bind (await (fs_readdir env ?p)) (\<lambda>fs. unlink_each env ?p fs) w1))"
      unfolding stutters_def by blast
    then have "stutter w (snd (io_bind (await (fs_readdir env ?p)) (\<lambda>fs. unlink_each env ?p fs) w1))"
      using s1 stutter_trans by blast
    then show "stutter w (snd (case await (fs_access env ?p) w of
                (Inl e, w') \<Rightarrow> (Inr (), w')
              | (Inr u, w') \<Rightarrow>
                  io_bind (await (fs_readdir env ?p))
                    (\<lambda>fs. unlink_each env ?p fs) w'))"
      using m s1 by (cases r) simp_all
  qed
  then show ?thesis
    by (simp add: cleanDirectoryImages_def Let_def stutters_try)
qed

lemma observations_stutter:
  assumes "stutter w w'"
  shows "\<exists>n. observations w' = history w @ replicate (Suc n) (conversionJobs w, opened w)"
proof -
  from assms obtain n f l where
    "w' = w\<lparr>history := history w @ replicate n (conversionJobs w, opened w),
              files := f, io_log := l\<rparr>"
    unfolding stutter_def by blast
  then have "observations w' = history w @ replicate (Suc n) (conversionJobs w, opened w)"
    by (simp add: observations_def replicate_append_same)
  then show ?thesis by blast
qed

lemma stutter_fields:
  assumes "stutter w w'"
  shows "conversionJobs w' = conversionJobs w" "opened w' = opened w"
    "jobCounter w' = jobCounter w" "immediates w' = immediates w"
  using assms unfolding stutter_def by auto

lemma sorted_wrt_replicate: "R x x \<Longrightarrow> sorted_wrt R (replicate n x)"
  by (induction n) auto

lemma sorted_wrt_append_replicate:
  assumes "sorted_wrt R (xs @ [x])" and "R x x"
  shows "sorted_wrt R (xs @ replicate (Suc n) x)"
  using assms sorted_wrt_replicate [of R x n] by (auto simp: sorted_wrt_append)

lemma good_stutter:
  assumes "good w" and "stutter w w'"
  shows "good w'"
proof -
  from observations_stutter [OF assms(2)] obtain n where
    o: "observations w' = history w @ replicate (Suc n) (conversionJobs w, opened w)" by blast
  have a: "sorted_wrt snap_step (history w @ [(conversionJobs w, opened w)])"
    and b: "\<forall>s\<in>set (history w @ [(conversionJobs w, opened w)]). snap_ok s"
    using assms(1) by (simp_all add: good_def observations_def)
  have "sorted_wrt snap_step (history w @ replicate (Suc n) (conversionJobs w, opened w))"
    using a by (rule sorted_wrt_append_replicate) simp
  moreover have "\<forall>s\<in>set (history w @ replicate (Suc n) (conversionJobs w, opened w)). snap_ok s"
    using b by auto
  ultimately show ?thesis by (simp add: good_def o)
qed

text \<open>A change of the current tracker that no poll has seen yet.\<close>

lemma good_change:
  assumes "good w" and "history w' = history w"
    and "snap_step (conversionJobs w, opened w) (conversionJobs w', opened w')"
    and "snap_ok (conversionJobs w', opened w')"
  shows "good w'"
proof -
  have a: "sorted_wrt snap_step (history w @ [(conversionJobs w, opened w)])"
    and b: "\<forall>s\<in>set (history w). snap_ok s"
    using assms(1) by (simp_all add: good_def observations_def)
  have "\<forall>s\<in>set (history w). snap_step s (conversionJobs w', opened w')"
    using a assms(3) by (auto simp: sorted_wrt_append intro: snap_step_trans)
  then have "sorted_wrt snap_step (history w @ [(conversionJobs w', opened w')])"
    using a by (auto simp: sorted_wrt_append)
  then show ?thesis using b assms(2,4) by (simp add: good_def observations_def)
qed

lemma good_current: "good w \<Longrightarrow> conversionJobs w k = Some j \<Longrightarrow> job_ok (opened w) k j"
  by (auto simp: good_def observations_def snap_ok_def)

lemma good_update_job:
  assumes "good w" and "conversionJobs w k = Some j"
    and "job_step j (f j)" and "job_ok (opened w) k (f j)"
  shows "good (update_job k f w)"
proof (rule good_change [OF assms(1)])
  show "history (update_job k f w) = history w" by (simp add: update_job_def)
  show "snap_step (conversionJobs w, opened w)
          (conversionJobs (update_job k f w), opened (update_job k f w))"
    using assms(2,3) by (auto simp: snap_step_def update_job_def)
  show "snap_ok (conversionJobs (update_job k f w), opened (update_job k f w))"
    using assms(1,2,4) good_current [OF assms(1)]
    by (auto simp: snap_ok_def update_job_def)
qed

lemma hoareI:
  "(\<And>w r w'. P w \<Longrightarrow> m w = (r, w') \<Longrightarrow> (case r of Inl e \<Rightarrow> E e w' | Inr x \<Rightarrow> Q x w')) \<Longrightarrow> hoare P m Q E"
  unfolding hoare_def by (auto split: prod.splits sum.splits)

lemma hoareD:
  "hoare P m Q E \<Longrightarrow> P w \<Longrightarrow> m w = (r, w') \<Longrightarrow> (case r of Inl e \<Rightarrow> E e w' | Inr x \<Rightarrow> Q x w')"
  unfolding hoare_def by (auto split: prod.splits sum.splits)

lemma hoare_bind:
  assumes "hoare P m R E" and "\<And>x. hoare (R x) (f x) Q E"
  shows "hoare P (io_bind m f) Q E"
proof (rule hoareI)
  fix w r w'
  assume p: "P w" and b: "io_bind m f w = (r, w')"
  obtain r1 w1 where m: "m w = (r1, w1)" by (cases "m w")
  show "case r of Inl e \<Rightarrow> E e w' | Inr x \<Rightarrow> Q x w'"
  proof (cases r1)
    case (Inl e)
    then show ?thesis using hoareD [OF assms(1) p m] b m by (auto simp: io_bind_def)
  next
    case (Inr x)
    then have "R x w1" using hoareD [OF assms(1) p m] by simp
    moreover have "f x w1 = (r, w')" using b m Inr by (simp add: io_bind_def)
    ultimately show ?thesis using hoareD [OF assms(2)] by blast
  qed
qed

lemma hoare_try:
  assumes "hoare P m Q R" and "\<And>e. hoare (R e) (h e) Q E"
  shows "hoare P (try_catch m h) Q E"
proof (rule hoareI)
  fix w r w'
  assume p: "P w" and b: "try_catch m h w = (r, w')"
  obtain r1 w1 where m: "m w = (r1, w1)" by (cases "m w")
  show "case r of Inl e \<Rightarrow> E e w' | Inr x \<Rightarrow> Q x w'"
  proof (cases r1)
    case (Inr x)
    then show ?thesis using hoareD [OF assms(1) p m] b m by (auto simp: try_catch_def)
  next
    case (Inl e)
    then have "R e w1" using hoareD [OF assms(1) p m] by simp
    moreover have "h e w1 = (r, w')" using b m Inl by (simp add: try_catch_def)
    ultimately show ?thesis using hoareD [OF assms(2)] by blast
  qed
qed

lemma hoare_weaken:
  assumes "hoare P m Q E" and "\<And>w. P' w \<Longrightarrow> P w" and "\<And>x w. Q x w \<Longrightarrow> Q' x w"
    and "\<And>e w. E e w \<Longrightarrow> E' e w"
  shows "hoare P' m Q' E'"
  using assms unfolding hoare_def by (fastforce split: prod.splits sum.splits)

lemma hoare_modify: "(\<And>w. P w \<Longrightarrow> Q () (f w)) \<Longrightarrow> hoare P (modify f) Q E"
  by (simp add: hoare_def modify_def)

lemma hoare_throw: "(\<And>w. P w \<Longrightarrow> E e w) \<Longrightarrow> hoare P (io_throw e) Q E"
  by (simp add: hoare_def io_throw_def)

lemma hoare_return: "(\<And>w. P w \<Longrightarrow> Q x w) \<Longrightarrow> hoare P (io_return x) Q E"
  by (simp add: hoare_def io_return_def)

lemma at_stutter:
  assumes "at k w0 C w" and "stutter w w'"
  shows "at k w0 C w'"
  using assms good_stutter [OF _ assms(2)] stutter_fields [OF assms(2)]
  by (auto simp: at_def frame_def)

lemma hoare_stutter:
  assumes "stutters m"
  shows "hoare (at k w0 C) m (\<lambda>x. at k w0 C) (\<lambda>e. at k w0 C)"
proof (rule hoareI)
  fix w r w'
  assume "at k w0 C w" and "m w = (r, w')"
  then have "at k w0 C w'" using at_stutter stuttersD [OF assms] by blast
  then show "case r of Inl e \<Rightarrow> at k w0 C w' | Inr x \<Rightarrow> at k w0 C w'"
    by (cases r) simp_all
qed

lemma at_weaken: "at k w0 C w \<Longrightarrow> (\<And>b j. C b j \<Longrightarrow> C' b j) \<Longrightarrow> at k w0 C' w"
  by (auto simp: at_def)

lemma frame_update_job: "frame k w0 w \<Longrightarrow> frame k w0 (update_job k f w)"
  by (simp add: frame_def update_job_def)

lemma at_update_job:
  assumes "at k w0 C w"
    and "\<And>j. C (k \<in> opened w) j \<Longrightarrow> job_ok (opened w) k j \<Longrightarrow>
           job_step j (f j) \<and> job_ok (opened w) k (f j) \<and> C' (k \<in> opened w) (f j)"
  shows "at k w0 C' (update_job k f w)"
proof -
  from assms(1) obtain j where g: "good w" and fr: "frame k w0 w"
    and j: "conversionJobs w k = Some j" and c: "C (k \<in> opened w) j"
    by (auto simp: at_def)
  have ok: "job_ok (opened w) k j" using good_current [OF g j] .
  have s: "job_step j (f j)" "job_ok (opened w) k (f j)" "C' (k \<in> opened w) (f j)"
    using assms(2) [OF c ok] by simp_all
  have "good (update_job k f w)" using g j s(1,2) by (rule good_update_job)
  moreover have "conversionJobs (update_job k f w) k = Some (f j)"
    "opened (update_job k f w) = opened w"
    using j by (simp_all add: update_job_def)
  ultimately show ?thesis using frame_update_job [OF fr] s(3) by (simp add: at_def)
qed

lemma page_loop_done:
  "npages < pageNum \<Longrightarrow> page_loop env doc d jobId npages pageNum sizes w = (Inr sizes, w)"
  by (subst page_loop.simps) simp

lemma page_loop_step:
  "pageNum \<le> npages \<Longrightarrow> page_loop env doc d jobId npages pageNum sizes w =
     (case page_iteration env doc d jobId npages pageNum sizes w of
        (Inl e, w') \<Rightarrow> (Inl e, w')
      | (Inr sizes', w') \<Rightarrow> page_loop env doc d jobId npages (Suc pageNum) sizes' w')"
  by (subst page_loop.simps) simp

lemma hoare_stutter_weak:
  assumes "stutters m" and "\<And>b j. C b j \<Longrightarrow> C' b j"
  shows "hoare (at k w0 C) m (\<lambda>x. at k w0 C) (\<lambda>e. at k w0 C')"
proof (rule hoareI)
  fix w r w'
  assume "at k w0 C w" and "m w = (r, w')"
  then have a: "at k w0 C w'" using at_stutter stuttersD [OF assms(1)] by blast
  then have "at k w0 C' w'" using assms(2) by (rule at_weaken)
  then show "case r of Inl e \<Rightarrow> at k w0 C' w' | Inr x \<Rightarrow> at k w0 C w'"
    using a by (cases r) simp_all
qed

lemma at_page_error:
  assumes "at k w0 (Crun npages n) w" and "n \<le> m" and "m \<le> npages"
  shows "at k w0 (Crun npages m) (page_error k p e w)"
  unfolding page_error_def
  by (rule at_update_job [OF assms(1)]) (use assms(2,3) in \<open>auto simp: Crun_def job_step_def job_ok_def\<close>)

lemma at_open:
  assumes "at k w0 Cpre w"
  shows "at k w0 (Crun n 0)
           (update_job k (\<lambda>j. j\<lparr>totalPages := n, processedPages := 0\<rparr>)
              (w\<lparr>opened := insert k (opened w)\<rparr>))"
proof -
  let ?f = "\<lambda>j. j\<lparr>totalPages := n, processedPages := 0\<rparr>"
  let ?w = "update_job k ?f (w\<lparr>opened := insert k (opened w)\<rparr>)"
  from assms obtain j where g: "good w" and fr: "frame k w0 w"
    and j: "conversionJobs w k = Some j" and c: "status j = Processing" "k \<notin> opened w"
    by (auto simp: at_def Cpre_def)
  have ok: "job_ok (opened w) k j" using good_current [OF g j] .
  have cur: "\<And>k' j'. conversionJobs w k' = Some j' \<Longrightarrow> job_ok (opened w) k' j'"
    using good_current [OF g] by blast
  have "good ?w"
  proof (rule good_change [OF g])
    show "history ?w = history w" by (simp add: update_job_def)
    show "snap_step (conversionJobs w, opened w) (conversionJobs ?w, opened ?w)"
      using j ok c by (auto simp: snap_step_def update_job_def job_step_def job_ok_def)
    show "snap_ok (conversionJobs ?w, opened ?w)"
      unfolding snap_ok_def
    proof (intro allI impI)
      fix k' j'
      assume h: "fst (conversionJobs ?w, opened ?w) k' = Some j'"
      show "job_ok (snd (conversionJobs ?w, opened ?w)) k' j'"
      proof (cases "k' = k")
        case True
        then have "j' = ?f j" using h j by (simp add: update_job_def)
        then show ?thesis using ok c True by (simp add: job_ok_def update_job_def)
      next
        case False
        then have "conversionJobs w k' = Some j'" using h by (simp add: update_job_def)
        then have "job_ok (opened w) k' j'" by (rule cur)
        then show ?thesis using False by (simp add: job_ok_def update_job_def)
      qed
    qed
  qed
  moreover have "frame k w0 ?w" using fr by (simp add: frame_def update_job_def)
  moreover have "conversionJobs ?w k = Some (?f j)" "k \<in> opened ?w"
    using j by (simp_all add: update_job_def)
  ultimately show ?thesis using c by (simp add: at_def Crun_def)
qed

lemma page_iteration_at:
  assumes n: "Suc n \<le> npages"
  shows "hoare (at k w0 (Crun npages n))
           (page_iteration env doc dir k npages (Suc n) sizes)
           (\<lambda>x. at k w0 (Crun npages (Suc n))) (\<lambda>e. at k w0 Cexc)"
proof (rule hoareI)
  fix w r w'
  assume a: "at k w0 (Crun npages n) w"
    and it: "page_iteration env doc dir k npages (Suc n) sizes w = (r, w')"
  define w1 where "w1 = observe (update_job k (\<lambda>j. j\<lparr>currentPage := Some (Suc n)\<rparr>) w)"
  have "at k w0 (Crun npages n) (update_job k (\<lambda>j. j\<lparr>currentPage := Some (Suc n)\<rparr>) w)"
    by (rule at_update_job [OF a]) (auto simp: Crun_def job_step_def job_ok_def)
  then have a1: "at k w0 (Crun npages n) w1"
    unfolding w1_def using at_stutter stutter_observe by blast
  have a1': "at k w0 (Crun npages n) (observe w1)"
    using a1 at_stutter stutter_observe by blast
  have err: "\<And>e v. at k w0 (Crun npages n) v \<Longrightarrow> at k w0 (Crun npages (Suc n)) (page_error k (Suc n) e v)"
    using n by (auto intro: at_page_error)
  have exc: "at k w0 Cexc w1"
    using a1 by (rule at_weaken) (simp add: Crun_def Cexc_def)
  show "case r of Inl e \<Rightarrow> at k w0 Cexc w' | Inr x \<Rightarrow> at k w0 (Crun npages (Suc n)) w'"
  proof (cases "getPage doc (Suc n)")
    case (GetPageRejects e)
    then show ?thesis using it exc by (auto simp: page_iteration_def w1_def Let_def)
  next
    case (CanvasThrows e)
    then show ?thesis using it exc by (auto simp: page_iteration_def w1_def Let_def)
  next
    case (RenderRejects e)
    then show ?thesis using it err [OF a1'] by (auto simp: page_iteration_def w1_def Let_def)
  next
    case (ToBufferThrows e)
    then show ?thesis using it err [OF a1'] by (auto simp: page_iteration_def w1_def Let_def)
  next
    case (Rendered raw cl)
    obtain r2 w2 where o: "await (optimizeImage env raw (Suc n) npages imageFormat) (observe w1) = (r2, w2)"
      by (cases "await (optimizeImage env raw (Suc n) npages imageFormat) (observe w1)")
    have "stutters (await (optimizeImage env raw (Suc n) npages imageFormat))"
      by (simp add: stutters_await)
    then have "stutter (observe w1) w2" using o by (rule stuttersD)
    then have a2: "at k w0 (Crun npages n) w2" using a1' at_stutter by blast
    show ?thesis
    proof (cases r2)
      case (Inl e)
      then show ?thesis using it Rendered o err [OF a2]
        by (auto simp: page_iteration_def w1_def Let_def)
    next
      case (Inr opt)
      let ?p = "dir @ [show_nat (Suc n) @ ''.'' @ imageFormat]"
      obtain r3 w3 where wf: "await (fs_writeFile env ?p opt) w2 = (r3, w3)"
        by (cases "await (fs_writeFile env ?p opt) w2")
      have "stutters (await (fs_writeFile env ?p opt))" by (simp add: stutters_await)
      then have "stutter w2 w3" using wf by (rule stuttersD)
      then have a3: "at k w0 (Crun npages n) w3" using a2 at_stutter by blast
      show ?thesis
      proof (cases r3)
        case (Inl e)
        then show ?thesis using it Rendered o Inr wf err [OF a3]
          by (auto simp: page_iteration_def w1_def Let_def)
      next
        case (Inr u)
        let ?w4 = "update_job k (\<lambda>j. j\<lparr>processedPages := processedPages j + 1,
                     progress := floor_percent env (processedPages j + 1) npages\<rparr>) w3"
        have a4: "at k w0 (Crun npages (Suc n)) ?w4"
          by (rule at_update_job [OF a3])
             (use n in \<open>auto simp: Crun_def job_step_def job_ok_def\<close>)
        show ?thesis
        proof (cases cl)
          case None
          then show ?thesis using a4 it Rendered o \<open>r2 = Inr opt\<close> wf Inr
            by (auto simp: page_iteration_def w1_def Let_def)
        next
          case (Some e)
          have "at k w0 (Crun npages (Suc n)) (page_error k (Suc n) e ?w4)"
            using a4 n by (auto intro: at_page_error)
          then show ?thesis using it Rendered o \<open>r2 = Inr opt\<close> wf Inr Some
            by (auto simp: page_iteration_def w1_def Let_def)
        qed
      qed
    qed
  qed
qed

lemma page_loop_at:
  "n \<le> npages \<Longrightarrow>
   hoare (at k w0 (Crun npages n))
     (page_loop env doc dir k npages (Suc n) sizes)
     (\<lambda>x. at k w0 (Crun npages npages)) (\<lambda>e. at k w0 Cexc)"
proof (induction "npages - n" arbitrary: n sizes)
  case 0
  then have "n = npages" by simp
  then show ?case by (auto simp: hoare_def page_loop_done)
next
  case (Suc d)
  then have lt: "Suc n \<le> npages" by simp
  have ih: "\<And>s. hoare (at k w0 (Crun npages (Suc n)))
     (page_loop env doc dir k npages (Suc (Suc n)) s)
     (\<lambda>x. at k w0 (Crun npages npages)) (\<lambda>e. at k w0 Cexc)"
    using Suc.hyps(1) [of "Suc n"] Suc.hyps(2) lt by simp
  show ?case
  proof (rule hoareI)
    fix w r w'
    assume a: "at k w0 (Crun npages n) w"
      and l: "page_loop env doc dir k npages (Suc n) sizes w = (r, w')"
    obtain r1 w1 where it: "page_iteration env doc dir k npages (Suc n) sizes w = (r1, w1)"
      by (cases "page_iteration env doc dir k npages (Suc n) sizes w")
    have h1: "case r1 of Inl e \<Rightarrow> at k w0 Cexc w1 | Inr x \<Rightarrow> at k w0 (Crun npages (Suc n)) w1"
      using hoareD [OF page_iteration_at [OF lt] a it] .
    show "case r of Inl e \<Rightarrow> at k w0 Cexc w' | Inr x \<Rightarrow> at k w0 (Crun npages npages) w'"
    proof (cases r1)
      case (Inl e)
      then show ?thesis using l it h1 lt by (auto simp: page_loop_step)
    next
      case (Inr s)
      then have "page_loop env doc dir k npages (Suc (Suc n)) s w1 = (r, w')"
        using l it lt by (simp add: page_loop_step)
      moreover have "at k w0 (Crun npages (Suc n)) w1" using h1 Inr by simp
      ultimately show ?thesis using hoareD [OF ih] by blast
    qed
  qed
qed

lemma conversion_at:
  "hoare (at k w0 Cpend) (conversion env pdf d k) (\<lambda>x. at k w0 Cany) (\<lambda>e. at k w0 Cexc)"
proof -
  let ?outd = "path_join outputDir (toString d)"
  have s1: "hoare (at k w0 Cpend) (modify (update_job k (\<lambda>j. j\<lparr>status := Processing\<rparr>)))
              (\<lambda>u. at k w0 Cpre) (\<lambda>e. at k w0 Cexc)"
    by (rule hoare_modify, erule at_update_job)
       (auto simp: Cpend_def Cpre_def job_step_def job_ok_def)
  have s2: "hoare (at k w0 Cpre) (await (cleanDirectoryImages env d))
              (\<lambda>u. at k w0 Cpre) (\<lambda>e. at k w0 Cexc)"
    by (rule hoare_stutter_weak) (simp_all add: stutters_await Cpre_def Cexc_def)
  have s3: "hoare (at k w0 Cpre)
              (try_catch (await (fs_access env pdf))
                 (\<lambda>err. io_bind
                    (modify (update_job k
                       (\<lambda>j. j\<lparr>status := Failed, error := Some (not_found_message pdf)\<rparr>)))
                    (\<lambda>u. io_throw (not_found_message pdf))))
              (\<lambda>u. at k w0 Cpre) (\<lambda>e. at k w0 Cexc)"
  proof (rule hoare_try [where R = "\<lambda>e. at k w0 Cpre"])
    show "hoare (at k w0 Cpre) (await (fs_access env pdf)) (\<lambda>u. at k w0 Cpre) (\<lambda>e. at k w0 Cpre)"
      by (rule hoare_stutter) (simp add: stutters_await)
  next
    fix e
    show "hoare (at k w0 Cpre)
            (io_bind (modify (update_job k
                       (\<lambda>j. j\<lparr>status := Failed, error := Some (not_found_message pdf)\<rparr>)))
                    (\<lambda>u. io_throw (not_found_message pdf)))
            (\<lambda>u. at k w0 Cpre) (\<lambda>e. at k w0 Cexc)"
    proof (rule hoare_bind [where R = "\<lambda>u. at k w0 Cexc"])
      show "hoare (at k w0 Cpre)
              (modify (update_job k
                 (\<lambda>j. j\<lparr>status := Failed, error := Some (not_found_message pdf)\<rparr>)))
              (\<lambda>u. at k w0 Cexc) (\<lambda>e. at k w0 Cexc)"
        by (rule hoare_modify, erule at_update_job)
           (auto simp: Cpre_def Cexc_def job_step_def job_ok_def)
    next
      fix u :: unit
      show "hoare (at k w0 Cexc) (io_throw (not_found_message pdf))
              (\<lambda>u. at k w0 Cpre) (\<lambda>e. at k w0 Cexc)"
        by (rule hoare_throw)
    qed
  qed
  have s4: "hoare (at k w0 Cpre) (await (fs_readFile env pdf))
              (\<lambda>u. at k w0 Cpre) (\<lambda>e. at k w0 Cexc)"
    by (rule hoare_stutter_weak) (simp_all add: stutters_await Cpre_def Cexc_def)
  have s5: "\<And>data. hoare (at k w0 Cpre) (await (io_lift (getDocument env data)))
              (\<lambda>u. at k w0 Cpre) (\<lambda>e. at k w0 Cexc)"
    by (rule hoare_stutter_weak) (simp_all add: stutters_await Cpre_def Cexc_def)
  have s6: "\<And>n. hoare (at k w0 Cpre)
              (modify (\<lambda>w. update_job k (\<lambda>j. j\<lparr>totalPages := n, processedPages := 0\<rparr>)
                 (w\<lparr>opened := insert k (opened w)\<rparr>)))
              (\<lambda>u. at k w0 (Crun n 0)) (\<lambda>e. at k w0 Cexc)"
    by (rule hoare_modify) (rule at_open)
  have s7: "\<And>n. hoare (at k w0 (Crun n 0)) (await (fs_mkdir env ?outd))
              (\<lambda>u. at k w0 (Crun n 0)) (\<lambda>e. at k w0 Cexc)"
    by (rule hoare_stutter_weak) (simp_all add: stutters_await Crun_def Cexc_def)
  have s8: "\<And>doc. hoare (at k w0 (Crun (numPages doc) 0))
              (page_loop env doc ?outd k (numPages doc) 1 (0, 0))
              (\<lambda>u. at k w0 (Crun (numPages doc) (numPages doc))) (\<lambda>e. at k w0 Cexc)"
    using page_loop_at [of 0] by simp
  have s9: "\<And>n sizes. hoare (at k w0 (Crun n n))
              (modify (update_job k
                 (\<lambda>j. j\<lparr>status := Completed, outputPath := Some ?outd,
                         endTime := Some (date_now env), progress := 100,
                         compressionRatio :=
                           Some (ratio_toFixed2 env (fst sizes) (snd sizes))\<rparr>)))
              (\<lambda>u. at k w0 Cany) (\<lambda>e. at k w0 Cexc)"
    by (rule hoare_modify, erule at_update_job)
       (auto simp: Crun_def Cany_def job_step_def job_ok_def)
  have s10: "hoare (at k w0 Cany) (io_return ?outd) (\<lambda>u. at k w0 Cany) (\<lambda>e. at k w0 Cexc)"
    by (rule hoare_return)
  show ?thesis
    unfolding conversion_def Let_def
    by (intro hoare_bind [OF s1] hoare_bind [OF s2] hoare_bind [OF s3] hoare_bind [OF s4]
        hoare_bind [OF s5] hoare_bind [OF s6] hoare_bind [OF s7] hoare_bind [OF s8]
        hoare_bind [OF s9] s10)
qed

lemma convertPDFToImages_at:
  "hoare (at k w0 Cpend) (convertPDFToImages env pdf d k) (\<lambda>x. at k w0 Cany) (\<lambda>e. at k w0 Cany)"
  unfolding convertPDFToImages_def
proof (rule hoare_try [where R = "\<lambda>e. at k w0 Cexc"])
  show "hoare (at k w0 Cpend)
          (\<lambda>w. case conversionJobs w k of
                  None \<Rightarrow> (Inl ''Cannot set properties of undefined (setting status)'', w)
                | Some j0 \<Rightarrow> conversion env pdf d k w)
          (\<lambda>x. at k w0 Cany) (\<lambda>e. at k w0 Cexc)"
  proof (rule hoareI)
    fix w r w'
    assume a: "at k w0 Cpend w"
      and c: "(case conversionJobs w k of
                  None \<Rightarrow> (Inl ''Cannot set properties of undefined (setting status)'', w)
                | Some j0 \<Rightarrow> conversion env pdf d k w) = (r, w')"
    from a obtain j where "conversionJobs w k = Some j" by (auto simp: at_def)
    then have "conversion env pdf d k w = (r, w')" using c by simp
    then show "case r of Inl e \<Rightarrow> at k w0 Cexc w' | Inr x \<Rightarrow> at k w0 Cany w'"
      using hoareD [OF conversion_at a] by blast
  qed
next
  fix e
  show "hoare (at k w0 Cexc)
          (io_bind (modify (update_job k
             (\<lambda>j. j\<lparr>status := Failed, error := Some e, endTime := Some (date_now env)\<rparr>)))
             (\<lambda>u. io_throw e))
          (\<lambda>x. at k w0 Cany) (\<lambda>e. at k w0 Cany)"
  proof (rule hoare_bind [where R = "\<lambda>u. at k w0 Cany"])
    show "hoare (at k w0 Cexc)
            (modify (update_job k
               (\<lambda>j. j\<lparr>status := Failed, error := Some e, endTime := Some (date_now env)\<rparr>)))
            (\<lambda>u. at k w0 Cany) (\<lambda>e. at k w0 Cany)"
      by (rule hoare_modify, erule at_update_job)
         (auto simp: Cexc_def Cany_def job_step_def job_ok_def)
  next
    fix u :: unit
    show "hoare (at k w0 Cany) (io_throw e) (\<lambda>x. at k w0 Cany) (\<lambda>e. at k w0 Cany)"
      by (rule hoare_throw)
  qed
qed

lemma sys_inv_stutter:
  assumes "sys_inv w" and "stutter w w'"
  shows "sys_inv w'"
  using assms good_stutter [OF _ assms(2)] stutter_fields [OF assms(2)]
  by (simp add: sys_inv_def)

lemma sys_inv_initial: "sys_inv initial_world"
  by (simp add: sys_inv_def good_def observations_def initial_world_def snap_ok_def)

lemma sys_inv_create:
  assumes "sys_inv w"
    and j: "status j = Pending" "processedPages j = 0" "totalPages j = 0" "outputPath j = None"
  shows "sys_inv (w\<lparr>jobCounter := Suc (jobCounter w),
                    conversionJobs := (conversionJobs w)(Suc (jobCounter w) \<mapsto> j),
                    immediates := immediates w @ [(pdf, d, Suc (jobCounter w))]\<rparr>)"
    (is "sys_inv ?w")
proof -
  let ?c = "Suc (jobCounter w)"
  have g: "good w" and fresh: "conversionJobs w ?c = None" "?c \<notin> opened w"
    and above: "\<forall>k. jobCounter w < k \<longrightarrow> conversionJobs w k = None \<and> k \<notin> opened w"
    and d: "distinct (map task_id (immediates w))"
    and t: "\<forall>t\<in>set (immediates w). \<exists>j. conversionJobs w (task_id t) = Some j \<and>
           status j = Pending \<and> task_id t \<notin> opened w"
    using assms(1) by (simp_all add: sys_inv_def)
  have cur: "\<And>k' j'. conversionJobs w k' = Some j' \<Longrightarrow> job_ok (opened w) k' j'"
    using good_current [OF g] by blast
  have "good ?w"
  proof (rule good_change [OF g])
    show "history ?w = history w" by simp
    show "snap_step (conversionJobs w, opened w) (conversionJobs ?w, opened ?w)"
      unfolding snap_step_def
    proof (intro allI impI)
      fix k' j'
      assume "fst (conversionJobs w, opened w) k' = Some j'"
      then have "conversionJobs w k' = Some j'" by simp
      moreover from this have "k' \<noteq> ?c" using fresh(1) by auto
      ultimately have "fst (conversionJobs ?w, opened ?w) k' = Some j'" by simp
      then show "\<exists>j''. fst (conversionJobs ?w, opened ?w) k' = Some j'' \<and> job_step j' j''"
        by simp
    qed
    show "snap_ok (conversionJobs ?w, opened ?w)"
      unfolding snap_ok_def
    proof (intro allI impI)
      fix k' j'
      assume h: "fst (conversionJobs ?w, opened ?w) k' = Some j'"
      show "job_ok (snd (conversionJobs ?w, opened ?w)) k' j'"
      proof (cases "k' = ?c")
        case True
        then have "j' = j" using h by simp
        then show ?thesis using j fresh(2) True by (simp add: job_ok_def)
      next
        case False
        then have "conversionJobs w k' = Some j'" using h by simp
        then have "job_ok (opened w) k' j'" by (rule cur)
        then show ?thesis by simp
      qed
    qed
  qed
  moreover have "\<forall>k. jobCounter ?w < k \<longrightarrow> conversionJobs ?w k = None \<and> k \<notin> opened ?w"
    using above by simp
  moreover have nin: "?c \<notin> task_id ` set (immediates w)"
  proof
    assume "?c \<in> task_id ` set (immediates w)"
    then obtain t' where "t' \<in> set (immediates w)" "task_id t' = ?c" by auto
    then show False using t fresh(1) by fastforce
  qed
  then have "distinct (map task_id (immediates ?w))"
    using d by (simp add: task_id_def)
  moreover have "\<forall>t\<in>set (immediates ?w). \<exists>j. conversionJobs ?w (task_id t) = Some j \<and>
           status j = Pending \<and> task_id t \<notin> opened ?w"
  proof
    fix t' assume "t' \<in> set (immediates ?w)"
    then consider "t' \<in> set (immediates w)" | "t' = (pdf, d, ?c)" by auto
    then show "\<exists>j. conversionJobs ?w (task_id t') = Some j \<and>
           status j = Pending \<and> task_id t' \<notin> opened ?w"
    proof cases
      case 1
      then have "task_id t' \<noteq> ?c" using nin by (metis imageI)
      then show ?thesis using t 1 by simp
    next
      case 2
      then show ?thesis using j(1) fresh(2) by (simp add: task_id_def)
    qed
  qed
  ultimately show ?thesis unfolding sys_inv_def by blast
qed

lemma post_upload_inv:
  assumes "sys_inv w"
  shows "sys_inv (snd (post_upload env req w))"
proof -
  obtain r1 w1 where e: "await (ensureDirectoriesExist env) w = (r1, w1)"
    by (cases "await (ensureDirectoriesExist env) w")
  have "stutters (await (ensureDirectoriesExist env))" by (simp add: stutters_await)
  then have "stutter w w1" using e by (rule stuttersD)
  then have i1: "sys_inv w1" using assms sys_inv_stutter by blast
  show ?thesis
  proof (cases r1)
    case (Inl err)
    then show ?thesis using e i1
      by (simp add: post_upload_def try_catch_def io_bind_def io_return_def)
  next
    case (Inr u)
    show ?thesis
    proof (cases "req_file req")
      case None
      then show ?thesis using e i1 Inr
        by (simp add: post_upload_def try_catch_def io_bind_def io_return_def)
    next
      case (Some pdf)
      then show ?thesis using e Inr sys_inv_create [OF i1]
        by (simp add: post_upload_def try_catch_def io_bind_def io_return_def Let_def)
    qed
  qed
qed

lemma stutters_post_maintenance_cleanup: "stutters (post_maintenance_cleanup env)"
  by (simp add: post_maintenance_cleanup_def stutters_try stutters_bind stutters_await)

lemma run_immediate_inv:
  assumes "sys_inv w" and im: "immediates w = (pdf, d, k) # rest"
  shows "sys_inv (snd (convertPDFToImages env pdf d k (w\<lparr>immediates := rest\<rparr>)))"
proof -
  let ?w0 = "w\<lparr>immediates := rest\<rparr>"
  have g: "good w"
    and above: "\<forall>k. jobCounter w < k \<longrightarrow> conversionJobs w k = None \<and> k \<notin> opened w"
    and d: "distinct (map task_id (immediates w))"
    and t: "\<forall>t\<in>set (immediates w). \<exists>j. conversionJobs w (task_id t) = Some j \<and>
           status j = Pending \<and> task_id t \<notin> opened w"
    using assms(1) by (simp_all add: sys_inv_def)
  have g0: "good ?w0" using g by (simp add: good_def observations_def)
  from t im obtain j where j: "conversionJobs w k = Some j" "status j = Pending" "k \<notin> opened w"
    by (auto simp: task_id_def)
  have a0: "at k ?w0 Cpend ?w0"
    using g0 j by (simp add: at_def frame_def Cpend_def)
  obtain r w' where c: "convertPDFToImages env pdf d k ?w0 = (r, w')"
    by (cases "convertPDFToImages env pdf d k ?w0")
  have "case r of Inl e \<Rightarrow> at k ?w0 Cany w' | Inr x \<Rightarrow> at k ?w0 Cany w'"
    using hoareD [OF convertPDFToImages_at a0 c] .
  then have a: "at k ?w0 Cany w'" by (cases r) simp_all
  then obtain j' where g': "good w'" and fr: "frame k ?w0 w'" and j': "conversionJobs w' k = Some j'"
    by (auto simp: at_def)
  have kle: "k \<le> jobCounter w" using above j(1) by (metis not_le option.distinct(1))
  have "\<forall>k'. jobCounter w' < k' \<longrightarrow> conversionJobs w' k' = None \<and> k' \<notin> opened w'"
    using fr above kle by (auto simp: frame_def)
  moreover have nk: "k \<notin> task_id ` set rest" and dr: "distinct (map task_id rest)"
    using d im by (auto simp: task_id_def)
  have "distinct (map task_id (immediates w'))" using fr dr by (simp add: frame_def)
  moreover have "\<forall>t\<in>set (immediates w'). \<exists>j. conversionJobs w' (task_id t) = Some j \<and>
           status j = Pending \<and> task_id t \<notin> opened w'"
  proof
    fix t' assume "t' \<in> set (immediates w')"
    then have m: "t' \<in> set rest" using fr by (simp add: frame_def)
    then have ne: "task_id t' \<noteq> k" using nk by auto
    from m t im obtain j'' where "conversionJobs w (task_id t') = Some j''"
      "status j'' = Pending" "task_id t' \<notin> opened w" by auto
    then show "\<exists>j. conversionJobs w' (task_id t') = Some j \<and>
           status j = Pending \<and> task_id t' \<notin> opened w'"
      using fr ne by (auto simp: frame_def)
  qed
  ultimately have "sys_inv w'" using g' by (simp add: sys_inv_def)
  then show ?thesis using c by simp
qed

lemma sys_inv_observe: "sys_inv w \<Longrightarrow> sys_inv (observe w)"
  using sys_inv_stutter stutter_observe by blast

lemma stutters_multer_single: "stutters (multer_single env mp)"
  by (simp add: multer_single_def Let_def stutters_bind split: option.split)

lemma stutters_listen_callback: "stutters (listen_callback env)"
  by (simp add: listen_callback_def stutters_try stutters_bind stutters_await)

lemma upload_route_inv:
  assumes "sys_inv w"
  shows "sys_inv (snd (upload_route env mp w))"
proof -
  obtain r1 w1 where m: "await (multer_single env mp) w = (r1, w1)"
    by (cases "await (multer_single env mp) w")
  have "stutters (await (multer_single env mp))"
    by (simp add: stutters_await stutters_multer_single)
  then have "stutter w w1" using m by (rule stuttersD)
  then have i1: "sys_inv w1" using assms sys_inv_stutter by blast
  show ?thesis
  proof (cases r1)
    case (Inl err)
    then show ?thesis using m i1
      by (simp add: upload_route_def try_catch_def io_bind_def io_return_def)
  next
    case (Inr req)
    obtain r2 w2 where p: "post_upload env req w1 = (r2, w2)"
      by (cases "post_upload env req w1")
    have "sys_inv w2" using post_upload_inv [OF i1, of env req] p by simp
    then show ?thesis using m Inr p
      by (cases r2) (simp_all add: upload_route_def try_catch_def io_bind_def io_return_def)
  qed
qed

lemma exec_inv:
  assumes "sys_inv w"
  shows "sys_inv (exec env opn w)"
proof (cases opn)
  case Startup
  have "stutter w (snd (listen_callback env w))"
    using stutters_listen_callback by (simp add: stutters_def)
  then have "sys_inv (snd (listen_callback env w))" using assms sys_inv_stutter by blast
  then have "sys_inv (observe (snd (listen_callback env w)))" by (rule sys_inv_observe)
  then show ?thesis using Startup by simp
next
  case (Upload mp)
  have "sys_inv (observe (snd (upload_route env mp w)))"
    using upload_route_inv [OF assms] by (rule sys_inv_observe)
  then show ?thesis using Upload by simp
next
  case (JobStatus param)
  have "snd (get_job param w) = w" by (simp add: get_job_def split: option.split)
  then show ?thesis using JobStatus sys_inv_observe [OF assms] by simp
next
  case MaintenanceCleanup
  have "stutter w (snd (post_maintenance_cleanup env w))"
    using stutters_post_maintenance_cleanup by (simp add: stutters_def)
  then have "sys_inv (snd (post_maintenance_cleanup env w))" using assms sys_inv_stutter by blast
  then have "sys_inv (observe (snd (post_maintenance_cleanup env w)))" by (rule sys_inv_observe)
  then show ?thesis using MaintenanceCleanup by simp
next
  case RunImmediate
  show ?thesis
  proof (cases "immediates w")
    case Nil
    then show ?thesis using RunImmediate assms by simp
  next
    case (Cons t rest)
    obtain pdf d k where t: "t = (pdf, d, k)" by (cases t)
    have "sys_inv (snd (convertPDFToImages env pdf d k (w\<lparr>immediates := rest\<rparr>)))"
      using assms Cons unfolding t by (rule run_immediate_inv)
    then have "sys_inv (observe (snd (convertPDFToImages env pdf d k (w\<lparr>immediates := rest\<rparr>))))"
      by (rule sys_inv_observe)
    then show ?thesis using RunImmediate Cons t by simp
  qed
qed

lemma run_inv: "sys_inv w \<Longrightarrow> sys_inv (run ops w)"
  by (induction ops arbitrary: w) (simp_all add: exec_inv)

lemma run_good: "good (run ops initial_world)"
  using run_inv [OF sys_inv_initial] by (simp add: sys_inv_def)

subsection \<open>The states of the concrete run\<close>

lemma show_nat_small: "n < 10 \<Longrightarrow> show_nat n = [digit n]"
  by (subst show_nat.simps) simp

lemmas io_defs = io_bind_def try_catch_def io_return_def io_throw_def io_lift_def modify_def
  await_def observe_def

lemmas fs_defs = fs_call_def fs_access_def fs_readdir_def fs_unlink_def fs_readFile_def
  fs_writeFile_def fs_mkdir_def path_prefixes_def entries_def

lemmas path_defs = path_join_def path_step_def dirname_def inputDir_def outputDir_def

lemmas handler_defs = initial_world_def listen_callback_def upload_route_def
  multer_single_def post_upload_def ensureDirectoriesExist_def cleanupDirectories_def
  post_maintenance_cleanup_def

lemmas pipeline_defs = convertPDFToImages_def conversion_def cleanDirectoryImages_def
  page_iteration_def page_error_def update_job_def optimizeImage_eq ratio_toFixed2_def
  imageFormat_def not_found_message_def path_string_def digit_def

lemma example_started_fields:
  "conversionJobs example_started = (\<lambda>k. None)"
  "immediates example_started = []"
  "files example_started =
     [([], Dir), ([''app''], Dir), ([''app'', ''pdfs''], Dir), ([''app'', ''images''], Dir)]"
  "opened example_started = {}"
  "jobCounter example_started = 0"
  by (simp_all add: example_started_def example_env_def handler_defs io_defs fs_defs path_defs
      Let_def)

lemma example_post_upload:
  "post_upload example_env example_request example_started =
     (Inr (200, UploadBody ''PDF uploaded successfully, conversion started'' 1 (IdString ''42'')),
      snd (post_upload example_env example_request example_started))"
proof -
  have "fst (post_upload example_env example_request example_started) =
     Inr (200, UploadBody ''PDF uploaded successfully, conversion started'' 1 (IdString ''42''))"
    by (simp add: example_request_def example_started_fields example_env_def post_upload_def
        ensureDirectoriesExist_def io_defs fs_defs path_defs Let_def)
  then show ?thesis by (simp add: prod_eq_iff)
qed

lemma example_uploaded_fields:
  "conversionJobs example_uploaded (Suc 0) =
     Some \<lparr>job_id = 1, directoryId = IdString ''42'', status = Pending, progress = 0,
           processedPages = 0, totalPages = 0, outputPath = None, startTime = 1000,
           endTime = None, error = None, errors = None, compressionRatio = None,
           pdfPath = [''app'', ''pdfs'', ''42.pdf''], currentPage = None\<rparr>"
  "immediates example_uploaded = [([''app'', ''pdfs'', ''42.pdf''], IdString ''42'', 1)]"
  "files example_uploaded =
     [([], Dir), ([''app''], Dir), ([''app'', ''pdfs''], Dir), ([''app'', ''images''], Dir),
      ([''app'', ''pdfs'', ''42.pdf''], File [37, 80, 68, 70])]"
  "opened example_uploaded = {}"
  "jobCounter example_uploaded = 1"
  by (simp_all add: example_uploaded_def example_started_def example_env_def example_upload_def
      handler_defs io_defs fs_defs path_defs Let_def)

lemma example_uploaded_history:
  "map (view (Suc 0)) (history example_uploaded) =
     [(None, False), (None, False), (None, False), (None, False), (None, False),
      (None, False), (None, False), (None, False), (None, False), (None, False),
      (Some (Pending, 0, 0, None), False)]"
  by (simp add: example_uploaded_def example_started_def example_env_def example_upload_def
      handler_defs io_defs fs_defs path_defs Let_def view_def)

lemma example_run_staged:
  "run example_run initial_world = exec example_env RunImmediate example_uploaded"
  by (simp add: example_run_def example_uploaded_def example_started_def)


subsection \<open>The status endpoint\<close>











text \<open>
  Claim C10. \<^verbatim>\<open>GET /api/jobs/:jobId\<close> leaves the whole state as it was, so the tracker and
  every job in it are unchanged by a poll; and the response is the same whatever the
  \<^verbatim>\<open>pdfPath\<close> and \<^verbatim>\<open>currentPage\<close> of the jobs are: the body is built from the twelve public
  fields and holds nothing of the other two.
\<close>

theorem get_job_reads_only:
  "snd (get_job param w) = w \<and>
   conversionJobs (exec env (JobStatus param) w) = conversionJobs w \<and>
   fst (get_job param
          (w\<lparr>conversionJobs :=
               (\<lambda>k. map_option (\<lambda>j. j\<lparr>pdfPath := p k, currentPage := c k\<rparr>)
                      (conversionJobs w k))\<rparr>)) =
   fst (get_job param w)"
  by (simp add: get_job_def jobs_get_def observe_def split: option.split)

subsection \<open>Deleting the entries of a directory\<close>

lemma set_delete_all:
  "set (delete_all d names fs) = {x \<in> set fs. fst x \<notin> (\<lambda>f. d @ [f]) ` set names}"
proof (induction names arbitrary: fs)
  case Nil
  then show ?case by (simp add: delete_all_def)
next
  case (Cons f names)
  have "delete_all d (f # names) fs = delete_all d names (AList.delete (d @ [f]) fs)"
    by (simp add: delete_all_def)
  then show ?case using Cons [of "AList.delete (d @ [f]) fs"]
    by (auto simp: AList.delete_eq)
qed

lemma entries_empty_iff:
  "(entries fs d = []) = (\<forall>x\<in>set fs. fst x = [] \<or> butlast (fst x) \<noteq> d)"
  by (auto simp: entries_def filter_empty_conv)

lemma entries_delete_all: "entries (delete_all d (entries fs d) fs) d = []"
proof -
  have "fst x = [] \<or> butlast (fst x) \<noteq> d" if x: "x \<in> set (delete_all d (entries fs d) fs)" for x
  proof (rule ccontr)
    assume "\<not> (fst x = [] \<or> butlast (fst x) \<noteq> d)"
    then have ne: "fst x \<noteq> []" and bl: "butlast (fst x) = d" by simp_all
    have xs: "x \<in> set fs" and nd: "fst x \<notin> (\<lambda>f. d @ [f]) ` set (entries fs d)"
      using x by (simp_all add: set_delete_all)
    have "last (fst x) \<in> set (entries fs d)"
    proof -
      obtain p n where pn: "x = (p, n)" by (cases x)
      then have "(p, n) \<in> set (filter (\<lambda>(p, n). p \<noteq> [] \<and> butlast p = d) fs)"
        using xs ne bl by simp
      then have "last p \<in> (\<lambda>(p, n). last p) ` set (filter (\<lambda>(p, n). p \<noteq> [] \<and> butlast p = d) fs)"
        by (rule image_eqI [rotated]) simp
      then show ?thesis using pn by (simp add: entries_def)
    qed
    moreover have "fst x = d @ [last (fst x)]"
      using ne bl append_butlast_last_id [of "fst x"] by simp
    ultimately show False using nd by blast
  qed
  then show ?thesis by (simp add: entries_empty_iff)
qed

lemma map_of_delete_all:
  "butlast p \<noteq> d \<or> p = [] \<Longrightarrow> map_of (delete_all d names fs) p = map_of fs p"
proof (induction names arbitrary: fs)
  case Nil
  then show ?case by (simp add: delete_all_def)
next
  case (Cons f names)
  have "delete_all d (f # names) fs = delete_all d names (AList.delete (d @ [f]) fs)"
    by (simp add: delete_all_def)
  moreover have "p \<noteq> d @ [f]" using Cons.prems by auto
  ultimately show ?case using Cons by (simp add: AList.delete_conv')
qed

lemma await_unlink_cases:
  assumes "await (fs_unlink env p) w = (r, w')"
  shows "conversionJobs w' = conversionJobs w \<and> io_log w' = io_log w @ [Unlink p] \<and>
         (case r of Inl e \<Rightarrow> files w' = files w | Inr u \<Rightarrow> files w' = AList.delete p (files w))"
  using assms
  by (auto simp: await_def observe_def fs_unlink_def fs_call_def Let_def
      split: option.splits node.splits)

lemma await_unlink_ok:
  assumes "io_fault env (Unlink p) = None" and "map_of (files w) p = Some (File b)"
  shows "\<exists>w'. await (fs_unlink env p) w = (Inr (), w')"
  using assms by (simp add: await_def observe_def fs_unlink_def fs_call_def Let_def)

lemma unlink_each_result:
  assumes "unlink_each env d names w = (r, w')"
  shows "conversionJobs w' = conversionJobs w \<and>
         (\<exists>gone. files w' = delete_all d gone (files w) \<and>
            io_log w' = io_log w @ map (\<lambda>f. Unlink (d @ [f])) (take (Suc (length gone)) names) \<and>
            (case r of Inl e \<Rightarrow> length gone < length names \<and> gone = take (length gone) names
                     | Inr u \<Rightarrow> gone = names))"
  using assms
proof (induction names arbitrary: w)
  case Nil
  then have "w' = w" "r = Inr ()" by (simp_all add: io_return_def)
  then show ?case by (auto simp: delete_all_def intro: exI [of _ "[]"])
next
  case (Cons f names)
  obtain r1 w1 where s: "await (fs_unlink env (d @ [f])) w = (r1, w1)"
    by (cases "await (fs_unlink env (d @ [f])) w")
  note c = await_unlink_cases [OF s]
  show ?case
  proof (cases r1)
    case (Inl e)
    then have "r = Inl e" "w' = w1" using Cons.prems s by (simp_all add: io_bind_def)
    then show ?thesis using c Inl
      by (auto simp: delete_all_def intro!: exI [of _ "[]"])
  next
    case (Inr u)
    then have "unlink_each env d names w1 = (r, w')" using Cons.prems s by (simp add: io_bind_def)
    from Cons.IH [OF this] obtain dn where
      j: "conversionJobs w' = conversionJobs w1"
      and f': "files w' = delete_all d dn (files w1)"
      and l: "io_log w' = io_log w1 @ map (\<lambda>f. Unlink (d @ [f])) (take (Suc (length dn)) names)"
      and r: "(case r of Inl e \<Rightarrow> length dn < length names \<and> dn = take (length dn) names
                     | Inr u \<Rightarrow> dn = names)"
      by blast
    have "files w' = delete_all d (f # dn) (files w)" using f' c Inr by (simp add: delete_all_def)
    moreover have "io_log w' = io_log w @
        map (\<lambda>f. Unlink (d @ [f])) (take (Suc (length (f # dn))) (f # names))"
      using l c by simp
    moreover have "(case r of Inl e \<Rightarrow> length (f # dn) < length (f # names) \<and>
                                  f # dn = take (length (f # dn)) (f # names)
                     | Inr u \<Rightarrow> f # dn = f # names)"
      using r by (cases r) auto
    ultimately show ?thesis using j c by (intro conjI exI [of _ "f # dn"]) simp_all
  qed
qed

lemma unlink_each_ok:
  assumes "\<forall>f\<in>set names. io_fault env (Unlink (d @ [f])) = None"
    and "distinct names"
    and "\<forall>f\<in>set names. \<exists>b. map_of (files w) (d @ [f]) = Some (File b)"
  shows "\<exists>w'. unlink_each env d names w = (Inr (), w')"
  using assms
proof (induction names arbitrary: w)
  case Nil
  then show ?case by (simp add: io_return_def)
next
  case (Cons f names)
  obtain b where b: "map_of (files w) (d @ [f]) = Some (File b)" using Cons.prems(3) by auto
  obtain w1 where s: "await (fs_unlink env (d @ [f])) w = (Inr (), w1)"
    using await_unlink_ok [OF _ b] Cons.prems(1) by auto
  have f1: "files w1 = AList.delete (d @ [f]) (files w)" using await_unlink_cases [OF s] by simp
  have "\<forall>g\<in>set names. \<exists>b. map_of (files w1) (d @ [g]) = Some (File b)"
  proof
    fix g assume g: "g \<in> set names"
    then have "g \<noteq> f" using Cons.prems(2) by auto
    then show "\<exists>b. map_of (files w1) (d @ [g]) = Some (File b)"
      using Cons.prems(3) g by (simp add: f1 AList.delete_conv')
  qed
  then obtain w' where "unlink_each env d names w1 = (Inr (), w')"
    using Cons.IH [of w1] Cons.prems by auto
  then show ?case using s by (simp add: io_bind_def)
qed

lemma await_readdir_cases:
  assumes "await (fs_readdir env d) w = (r, w')"
  shows "conversionJobs w' = conversionJobs w \<and> io_log w' = io_log w @ [Readdir d] \<and>
         files w' = files w \<and> (\<forall>names. r = Inr names \<longrightarrow> names = entries (files w) d)"
  using assms
  by (auto simp: await_def observe_def fs_readdir_def fs_call_def Let_def
      split: option.splits node.splits)

lemma await_readdir_ok:
  assumes "io_fault env (Readdir d) = None" and "map_of (files w) d = Some Dir"
  shows "\<exists>w'. await (fs_readdir env d) w = (Inr (entries (files w) d), w')"
  using assms by (simp add: await_def observe_def fs_readdir_def fs_call_def Let_def)

lemma distinct_entries [simp]: "distinct (entries fs d)"
  by (simp add: entries_def)

lemma cleanupDirectories_result:
  "\<exists>w' gone. cleanupDirectories env w = (Inr (), w') \<and>
      conversionJobs w' = conversionJobs w \<and> files w' = delete_all inputDir gone (files w) \<and>
      (fault_free env \<and> map_of (files w) inputDir = Some Dir \<and> only_files (files w) inputDir
         \<longrightarrow> gone = entries (files w) inputDir)"
proof -
  obtain r1 w1 where s: "await (fs_readdir env inputDir) w = (r1, w1)"
    by (cases "await (fs_readdir env inputDir) w")
  note c = await_readdir_cases [OF s]
  show ?thesis
  proof (cases r1)
    case (Inl e)
    have "cleanupDirectories env w = (Inr (), w1)"
      using s Inl by (simp add: cleanupDirectories_def try_catch_def io_bind_def io_return_def)
    moreover have "files w1 = delete_all inputDir [] (files w)" using c by (simp add: delete_all_def)
    moreover have "\<not> (fault_free env \<and> map_of (files w) inputDir = Some Dir)"
      using await_readdir_ok [of env inputDir w] s Inl by (auto simp: fault_free_def)
    ultimately show ?thesis using c by blast
  next
    case (Inr names)
    then have n: "names = entries (files w) inputDir" using c by simp
    obtain r2 w2 where u: "unlink_each env inputDir names w1 = (r2, w2)"
      by (cases "unlink_each env inputDir names w1")
    from unlink_each_result [OF u] obtain dn where
      j: "conversionJobs w2 = conversionJobs w1"
      and f: "files w2 = delete_all inputDir dn (files w1)"
      and r: "(case r2 of Inl e \<Rightarrow> length dn < length names \<and> dn = take (length dn) names
                     | Inr u \<Rightarrow> dn = names)"
      by blast
    have res: "cleanupDirectories env w = (Inr (), w2)"
      using s Inr u
      by (cases r2) (simp_all add: cleanupDirectories_def try_catch_def io_bind_def io_return_def)
    have "dn = entries (files w) inputDir"
      if h: "fault_free env" "only_files (files w) inputDir"
    proof -
      have "\<exists>w'. unlink_each env inputDir names w1 = (Inr (), w')"
        using h c n by (intro unlink_each_ok) (auto simp: fault_free_def only_files_def)
      then have "r2 = Inr ()" using u by auto
      then show ?thesis using r n by simp
    qed
    then show ?thesis using res j f c by auto
  qed
qed

subsection \<open>The maintenance endpoint\<close>

lemma post_maintenance_cleanup_eq:
  "post_maintenance_cleanup env w =
     (Inr (200, MessageBody ''All temporary directories cleaned successfully''),
      snd (cleanupDirectories env (observe w)))"
proof -
  obtain w' where "cleanupDirectories env (observe w) = (Inr (), w')"
    using cleanupDirectories_result [of env "observe w"] by blast
  then show ?thesis
    by (simp add: post_maintenance_cleanup_def try_catch_def io_bind_def io_return_def await_def)
qed

lemma not_under_inputDir: "butlast (outputDir @ name) \<noteq> inputDir"
  by (cases name rule: rev_cases) (simp_all add: inputDir_def outputDir_def dirname_def butlast_append)

text \<open>
  Claim C2, as the code has it. \<^verbatim>\<open>POST /api/maintenance/cleanup\<close> always responds 200 with the
  message \<^verbatim>\<open>All temporary directories cleaned successfully\<close>: \<^verbatim>\<open>cleanupDirectories\<close> catches
  every error of \<^verbatim>\<open>readdir\<close> and \<^verbatim>\<open>unlink\<close> and does not rethrow, so the handler's 500 branch is
  never taken. The request leaves the job tracker alone and changes no path outside the input
  directory, so nothing in the output directory; and when no call of the file system fails
  and the input directory holds regular files only, no entry is left in it.
\<close>

theorem maintenance_cleanup_always_200:
  "\<exists>w'. post_maintenance_cleanup env w =
          (Inr (200, MessageBody ''All temporary directories cleaned successfully''), w') \<and>
        conversionJobs w' = conversionJobs w \<and>
        (\<forall>p. butlast p \<noteq> inputDir \<longrightarrow> map_of (files w') p = map_of (files w) p) \<and>
        (\<forall>name. map_of (files w') (outputDir @ name) = map_of (files w) (outputDir @ name)) \<and>
        (fault_free env \<and> map_of (files w) inputDir = Some Dir \<and> only_files (files w) inputDir
           \<longrightarrow> entries (files w') inputDir = [])"
proof -
  obtain w' gone where c: "cleanupDirectories env (observe w) = (Inr (), w')"
    and j: "conversionJobs w' = conversionJobs (observe w)"
    and f: "files w' = delete_all inputDir gone (files (observe w))"
    and a: "fault_free env \<and> map_of (files (observe w)) inputDir = Some Dir \<and>
            only_files (files (observe w)) inputDir \<longrightarrow> gone = entries (files (observe w)) inputDir"
    using cleanupDirectories_result [of env "observe w"] by blast
  have o: "files (observe w) = files w" "conversionJobs (observe w) = conversionJobs w"
    by (simp_all add: observe_def)
  have "post_maintenance_cleanup env w =
          (Inr (200, MessageBody ''All temporary directories cleaned successfully''), w')"
    using c by (simp add: post_maintenance_cleanup_eq)
  moreover have "conversionJobs w' = conversionJobs w" using j o by simp
  moreover have fr: "\<forall>p. butlast p \<noteq> inputDir \<longrightarrow> map_of (files w') p = map_of (files w) p"
    using f o by (simp add: map_of_delete_all)
  moreover have "\<forall>name. map_of (files w') (outputDir @ name) = map_of (files w) (outputDir @ name)"
    using fr not_under_inputDir by blast
  moreover have "fault_free env \<and> map_of (files w) inputDir = Some Dir \<and>
      only_files (files w) inputDir \<longrightarrow> entries (files w') inputDir = []"
    using a f o by (auto simp: entries_delete_all)
  ultimately show ?thesis by blast
qed

lemma example_uploaded_entries:
  "entries (files example_uploaded) inputDir = [''42.pdf'']"
  by (simp add: example_uploaded_fields entries_def path_defs)

theorem maintenance_cleanup_always_200_witness:
  "fst (post_maintenance_cleanup example_env example_uploaded) =
     Inr (200, MessageBody ''All temporary directories cleaned successfully'') \<and>
   entries (files example_uploaded) inputDir = [''42.pdf''] \<and>
   entries (files (snd (post_maintenance_cleanup example_env example_uploaded))) inputDir = [] \<and>
   map_of (files (snd (post_maintenance_cleanup example_env example_uploaded))) outputDir =
     Some Dir"
proof -
  have h: "fault_free example_env" "map_of (files example_uploaded) inputDir = Some Dir"
    "only_files (files example_uploaded) inputDir"
    by (simp_all add: fault_free_def example_env_def only_files_def example_uploaded_entries)
       (simp_all add: example_uploaded_fields path_defs)
  have o: "map_of (files example_uploaded) (outputDir @ []) = Some Dir"
    by (simp add: example_uploaded_fields path_defs)
  obtain w' where r: "post_maintenance_cleanup example_env example_uploaded =
          (Inr (200, MessageBody ''All temporary directories cleaned successfully''), w')"
    and e: "entries (files w') inputDir = []"
    and k: "map_of (files w') (outputDir @ []) = map_of (files example_uploaded) (outputDir @ [])"
    using maintenance_cleanup_always_200 [of example_env example_uploaded] h by blast
  show ?thesis using r e k o by (simp add: example_uploaded_entries)
qed

text \<open>
  The claim as the specification states it fails when a delete throws: in the state after the
  upload of the concrete run, with \<^verbatim>\<open>unlink\<close> of the uploaded file failing with EBUSY, the
  endpoint calls \<^verbatim>\<open>readdir\<close> and that \<^verbatim>\<open>unlink\<close>, the file stays, and the response is 200 with
  the message of success, not 500.
\<close>

theorem maintenance_cleanup_hides_failed_delete:
  "fst (fs_unlink busy_env [''app'', ''pdfs'', ''42.pdf''] example_uploaded) =
     Inl ''EBUSY: resource busy or locked'' \<and>
   fst (post_maintenance_cleanup busy_env example_uploaded) =
     Inr (200, MessageBody ''All temporary directories cleaned successfully'') \<and>
   io_log (snd (post_maintenance_cleanup busy_env example_uploaded)) =
     io_log example_uploaded @
     [Readdir [''app'', ''pdfs''], Unlink [''app'', ''pdfs'', ''42.pdf'']] \<and>
   map_of (files (snd (post_maintenance_cleanup busy_env example_uploaded)))
     [''app'', ''pdfs'', ''42.pdf''] = Some (File [37, 80, 68, 70])"
  by (simp add: busy_env_def example_env_def post_maintenance_cleanup_def cleanupDirectories_def
      example_uploaded_fields io_defs fs_defs path_defs Let_def)

subsection \<open>The trace of the concrete run\<close>

lemma example_trace:
  "map (view 1) (observations (run example_run initial_world)) = example_views"
  unfolding example_run_staged example_views_def
  by (simp add: example_uploaded_fields example_uploaded_history example_env_def
      example_document_def observations_def pipeline_defs io_defs fs_defs path_defs Let_def
      view_def page_loop_done page_loop_step show_nat_small)

lemma example_length: "length (observations (run example_run initial_world)) = 24"
proof -
  have "length (map (view 1) (observations (run example_run initial_world))) = 24"
    by (simp only: example_trace) (simp add: example_views_def)
  then show ?thesis by simp
qed

lemma example_member:
  "i < 24 \<Longrightarrow> observations (run example_run initial_world) ! i \<in>
     set (observations (run example_run initial_world))"
  by (simp add: example_length)

lemma example_view:
  assumes "i < 24" and "example_views ! i = (Some (st, p, t, out), b)"
  shows "\<exists>j. fst (observations (run example_run initial_world) ! i) 1 = Some j \<and>
             status j = st \<and> processedPages j = p \<and> totalPages j = t \<and> outputPath j = out \<and>
             (1 \<in> snd (observations (run example_run initial_world) ! i)) = b"
proof -
  let ?obs = "observations (run example_run initial_world)"
  have "map (view 1) ?obs ! i = view 1 (?obs ! i)"
    by (rule nth_map) (simp add: example_length assms(1))
  then have "view 1 (?obs ! i) = (Some (st, p, t, out), b)"
    using assms(2) by (simp only: example_trace)
  then show ?thesis by (auto simp: view_def)
qed

lemma example_pending:
  "\<exists>j. fst (observations (run example_run initial_world) ! 10) 1 = Some j \<and>
       status j = Pending \<and> processedPages j = 0 \<and> totalPages j = 0 \<and>
       outputPath j = None \<and> 1 \<notin> snd (observations (run example_run initial_world) ! 10)"
  using example_view [of 10 Pending 0 0 None False] by (simp add: example_views_def)

lemma example_processing:
  "\<exists>j. fst (observations (run example_run initial_world) ! 21) 1 = Some j \<and>
       status j = Processing \<and> processedPages j = 0 \<and> totalPages j = 1 \<and>
       outputPath j = None \<and> 1 \<in> snd (observations (run example_run initial_world) ! 21)"
  using example_view [of 21 Processing 0 1 None True] by (simp add: example_views_def)

lemma example_completed_first:
  "\<exists>j. fst (observations (run example_run initial_world) ! 22) 1 = Some j \<and>
       status j = Completed \<and> processedPages j = 1 \<and> totalPages j = 1 \<and>
       outputPath j = Some [''app'', ''images'', ''42''] \<and>
       1 \<in> snd (observations (run example_run initial_world) ! 22)"
  using example_view [of 22 Completed 1 1 "Some [''app'', ''images'', ''42'']" True]
  by (simp add: example_views_def)

lemma example_completed:
  "\<exists>j. fst (observations (run example_run initial_world) ! 23) 1 = Some j \<and>
       status j = Completed \<and> processedPages j = 1 \<and> totalPages j = 1 \<and>
       outputPath j = Some [''app'', ''images'', ''42''] \<and>
       1 \<in> snd (observations (run example_run initial_world) ! 23)"
  using example_view [of 23 Completed 1 1 "Some [''app'', ''images'', ''42'']" True]
  by (simp add: example_views_def)

subsection \<open>The job record over a run\<close>

lemma post_upload_creates:
  assumes "post_upload env req w = (Inr (200, UploadBody m k d), w')"
  shows "\<exists>j. conversionJobs w' k = Some j \<and> status j = Pending \<and> processedPages j = 0 \<and>
             totalPages j = 0 \<and> outputPath j = None"
proof -
  obtain r1 w1 where e: "await (ensureDirectoriesExist env) w = (r1, w1)"
    by (cases "await (ensureDirectoriesExist env) w")
  show ?thesis
  proof (cases r1)
    case (Inl err)
    then show ?thesis using assms e
      by (simp add: post_upload_def try_catch_def io_bind_def io_return_def)
  next
    case (Inr u)
    show ?thesis
    proof (cases "req_file req")
      case None
      then show ?thesis using assms e Inr
        by (simp add: post_upload_def try_catch_def io_bind_def io_return_def)
    next
      case (Some pdf)
      then show ?thesis using assms e Inr
        by (auto simp: post_upload_def try_catch_def io_bind_def io_return_def Let_def)
    qed
  qed
qed

text \<open>
  Claim C4. In every run of the server (any sequence of starts, uploads, status polls,
  clean-ups and pipeline runs, in any environment), for every job id \<open>k\<close> and any two
  observations of the tracker, an earlier one \<open>s\<close> and a later one \<open>t\<close>: a job that \<open>s\<close> holds is
  still held by \<open>t\<close>, its status in \<open>t\<close> is the status in \<open>s\<close> or one that follows it in
  \<^verbatim>\<open>pending\<close>, \<^verbatim>\<open>processing\<close>, \<^verbatim>\<open>completed\<close> or \<^verbatim>\<open>failed\<close>, and a status \<^verbatim>\<open>completed\<close> or \<^verbatim>\<open>failed\<close> in
  \<open>s\<close> is unchanged in \<open>t\<close>.
\<close>

theorem status_moves_forward:
  "sorted_wrt
     (\<lambda>s t. \<forall>j. fst s k = Some j \<longrightarrow>
        (\<exists>j'. fst t k = Some j' \<and> forward (status j) (status j') \<and>
              (status j = Completed \<or> status j = Failed \<longrightarrow> status j' = status j)))
     (observations (run ops initial_world))"
proof -
  have "sorted_wrt snap_step (observations (run ops initial_world))"
    using run_good [of ops] by (simp add: good_def)
  then show ?thesis
  proof (rule sorted_wrt_mono_rel [rotated])
    fix s t
    assume st: "snap_step s t"
    show "\<forall>j. fst s k = Some j \<longrightarrow>
        (\<exists>j'. fst t k = Some j' \<and> forward (status j) (status j') \<and>
              (status j = Completed \<or> status j = Failed \<longrightarrow> status j' = status j))"
    proof (intro allI impI)
      fix j assume "fst s k = Some j"
      then obtain j'' where "fst t k = Some j''" "job_step j j''"
        using st unfolding snap_step_def by blast
      then obtain j' where j': "fst t k = Some j'" "forward (status j) (status j')"
        by (auto simp: job_step_def)
      then have "status j = Completed \<or> status j = Failed \<longrightarrow> status j' = status j"
        by (cases "status j") auto
      then show "\<exists>j'. fst t k = Some j' \<and> forward (status j) (status j') \<and>
              (status j = Completed \<or> status j = Failed \<longrightarrow> status j' = status j)"
        using j' by blast
    qed
  qed
qed

theorem status_moves_forward_witness:
  "\<exists>j j' j'' j3. fst (observations (run example_run initial_world) ! 10) 1 = Some j \<and>
          status j = Pending \<and>
          fst (observations (run example_run initial_world) ! 21) 1 = Some j' \<and>
          status j' = Processing \<and>
          fst (observations (run example_run initial_world) ! 22) 1 = Some j'' \<and>
          status j'' = Completed \<and>
          fst (observations (run example_run initial_world) ! 23) 1 = Some j3 \<and>
          forward (status j) (status j') \<and> forward (status j') (status j'') \<and>
          status j3 = status j''"
proof -
  let ?obs = "observations (run example_run initial_world)"
  let ?R = "\<lambda>s t. \<forall>j. fst s 1 = Some j \<longrightarrow>
        (\<exists>j'. fst t 1 = Some j' \<and> forward (status j) (status j') \<and>
              (status j = Completed \<or> status j = Failed \<longrightarrow> status j' = status j))"
  have s: "sorted_wrt ?R ?obs" by (rule status_moves_forward [of 1 example_run])
  from example_pending obtain j where j: "fst (?obs ! 10) 1 = Some j" "status j = Pending"
    by blast
  from example_processing obtain j' where j': "fst (?obs ! 21) 1 = Some j'" "status j' = Processing"
    by blast
  from example_completed_first obtain j'' where
    j'': "fst (?obs ! 22) 1 = Some j''" "status j'' = Completed"
    by blast
  from example_completed obtain j3 where j3: "fst (?obs ! 23) 1 = Some j3"
    by blast
  have "?R (?obs ! 10) (?obs ! 21)"
    using sorted_wrt_nth_less [OF s, of 10 21] by (simp add: example_length)
  then have a: "forward (status j) (status j')" using j j' by auto
  have "?R (?obs ! 21) (?obs ! 22)"
    using sorted_wrt_nth_less [OF s, of 21 22] by (simp add: example_length)
  then have b: "forward (status j') (status j'')" using j' j'' by auto
  have "?R (?obs ! 22) (?obs ! 23)"
    using sorted_wrt_nth_less [OF s, of 22 23] by (simp add: example_length)
  then have c: "status j3 = status j''" using j'' j3 by auto
  show ?thesis using j j' j'' j3 a b c by blast
qed

text \<open>
  Claim C5. The job that the upload handler creates has \<^verbatim>\<open>processedPages\<close> 0 and
  \<^verbatim>\<open>totalPages\<close> 0. In every run of the server and every observation of the tracker, a job has
  \<^verbatim>\<open>processedPages\<close> at most \<^verbatim>\<open>totalPages\<close>, and both are 0 as long as its document has not been
  opened; and between an earlier and a later observation \<^verbatim>\<open>processedPages\<close> does not decrease.
\<close>

theorem processedPages_monotone_and_bounded:
  "(post_upload env req w = (Inr (200, UploadBody m k' d), w') \<longrightarrow>
      (\<exists>j. conversionJobs w' k' = Some j \<and> processedPages j = 0 \<and> totalPages j = 0)) \<and>
   (\<forall>s\<in>set (observations (run ops initial_world)). \<forall>j. fst s k = Some j \<longrightarrow>
      processedPages j \<le> totalPages j \<and>
      (k \<notin> snd s \<longrightarrow> processedPages j = 0 \<and> totalPages j = 0)) \<and>
   sorted_wrt
     (\<lambda>s t. \<forall>j. fst s k = Some j \<longrightarrow>
        (\<exists>j'. fst t k = Some j' \<and> processedPages j \<le> processedPages j'))
     (observations (run ops initial_world))"
proof (intro conjI)
  show "post_upload env req w = (Inr (200, UploadBody m k' d), w') \<longrightarrow>
      (\<exists>j. conversionJobs w' k' = Some j \<and> processedPages j = 0 \<and> totalPages j = 0)"
  proof
    assume "post_upload env req w = (Inr (200, UploadBody m k' d), w')"
    then obtain j where "conversionJobs w' k' = Some j" "processedPages j = 0" "totalPages j = 0"
      using post_upload_creates by blast
    then show "\<exists>j. conversionJobs w' k' = Some j \<and> processedPages j = 0 \<and> totalPages j = 0"
      by blast
  qed
  have g: "good (run ops initial_world)" by (rule run_good)
  show "\<forall>s\<in>set (observations (run ops initial_world)). \<forall>j. fst s k = Some j \<longrightarrow>
      processedPages j \<le> totalPages j \<and>
      (k \<notin> snd s \<longrightarrow> processedPages j = 0 \<and> totalPages j = 0)"
  proof (intro ballI allI impI)
    fix s j
    assume "s \<in> set (observations (run ops initial_world))" and "fst s k = Some j"
    then have "job_ok (snd s) k j" using g by (simp add: good_def snap_ok_def)
    then show "processedPages j \<le> totalPages j \<and>
      (k \<notin> snd s \<longrightarrow> processedPages j = 0 \<and> totalPages j = 0)"
      by (simp add: job_ok_def)
  qed
  have "sorted_wrt snap_step (observations (run ops initial_world))"
    using g by (simp add: good_def)
  then show "sorted_wrt
     (\<lambda>s t. \<forall>j. fst s k = Some j \<longrightarrow>
        (\<exists>j'. fst t k = Some j' \<and> processedPages j \<le> processedPages j'))
     (observations (run ops initial_world))"
  proof (rule sorted_wrt_mono_rel [rotated])
    fix s t
    assume st: "snap_step s t"
    show "\<forall>j. fst s k = Some j \<longrightarrow>
        (\<exists>j'. fst t k = Some j' \<and> processedPages j \<le> processedPages j')"
    proof (intro allI impI)
      fix j assume "fst s k = Some j"
      then obtain j' where "fst t k = Some j'" "job_step j j'"
        using st unfolding snap_step_def by blast
      then show "\<exists>j'. fst t k = Some j' \<and> processedPages j \<le> processedPages j'"
        by (auto simp: job_step_def)
    qed
  qed
qed

theorem processedPages_monotone_and_bounded_witness:
  "(\<exists>j. conversionJobs (snd (post_upload example_env example_request example_started)) 1 = Some j \<and>
        processedPages j = 0 \<and> totalPages j = 0) \<and>
   (\<exists>j j' j''. fst (observations (run example_run initial_world) ! 10) 1 = Some j \<and>
          1 \<notin> snd (observations (run example_run initial_world) ! 10) \<and>
          processedPages j = 0 \<and> totalPages j = 0 \<and>
          fst (observations (run example_run initial_world) ! 21) 1 = Some j' \<and>
          processedPages j' = 0 \<and> totalPages j' = 1 \<and>
          fst (observations (run example_run initial_world) ! 23) 1 = Some j'' \<and>
          processedPages j'' = 1 \<and> totalPages j'' = 1 \<and>
          processedPages j \<le> processedPages j' \<and> processedPages j' \<le> processedPages j'' \<and>
          processedPages j' \<le> totalPages j' \<and> processedPages j'' \<le> totalPages j'')"
proof -
  let ?obs = "observations (run example_run initial_world)"
  let ?R = "\<lambda>s t. \<forall>j. fst s 1 = Some j \<longrightarrow>
        (\<exists>j'. fst t 1 = Some j' \<and> processedPages j \<le> processedPages j')"
  note inst = processedPages_monotone_and_bounded [where ops = example_run and k = 1
      and env = example_env and req = example_request and w = example_started
      and m = "''PDF uploaded successfully, conversion started''" and k' = 1
      and d = "IdString ''42''"
      and w' = "snd (post_upload example_env example_request example_started)"]
  have u: "\<exists>j. conversionJobs (snd (post_upload example_env example_request example_started)) 1 =
               Some j \<and> processedPages j = 0 \<and> totalPages j = 0"
    using inst example_post_upload by blast
  from example_pending obtain j where j: "fst (?obs ! 10) 1 = Some j" "1 \<notin> snd (?obs ! 10)"
    by blast
  from example_processing obtain j' where
    j': "fst (?obs ! 21) 1 = Some j'" "processedPages j' = 0" "totalPages j' = 1"
    by blast
  from example_completed obtain j'' where
    j'': "fst (?obs ! 23) 1 = Some j''" "processedPages j'' = 1" "totalPages j'' = 1"
    by blast
  have m: "?obs ! 10 \<in> set ?obs" "?obs ! 21 \<in> set ?obs" "?obs ! 23 \<in> set ?obs"
    by (simp_all add: example_member)
  have a: "processedPages j = 0 \<and> totalPages j = 0" using inst m(1) j by blast
  have b: "processedPages j' \<le> totalPages j'" using inst m(2) j'(1) by blast
  have c: "processedPages j'' \<le> totalPages j''" using inst m(3) j''(1) by blast
  have s: "sorted_wrt ?R ?obs" using inst by blast
  have "?R (?obs ! 10) (?obs ! 21)"
    using sorted_wrt_nth_less [OF s, of 10 21] by (simp add: example_length)
  then have d: "processedPages j \<le> processedPages j'" using j j' by auto
  have "?R (?obs ! 21) (?obs ! 23)"
    using sorted_wrt_nth_less [OF s, of 21 23] by (simp add: example_length)
  then have e: "processedPages j' \<le> processedPages j''" using j' j'' by auto
  show ?thesis using u j j' j'' a b c d e by blast
qed

text \<open>
  Claim C6. In every run of the server and every observation of the tracker, a job has an
  \<^verbatim>\<open>outputPath\<close> if and only if its status is \<^verbatim>\<open>completed\<close>.
\<close>

theorem outputPath_iff_completed:
  "\<forall>s\<in>set (observations (run ops initial_world)). \<forall>j. fst s k = Some j \<longrightarrow>
      (outputPath j \<noteq> None) = (status j = Completed)"
proof (intro ballI allI impI)
  fix s j
  assume "s \<in> set (observations (run ops initial_world))" and "fst s k = Some j"
  then have "job_ok (snd s) k j" using run_good [of ops] by (simp add: good_def snap_ok_def)
  then show "(outputPath j \<noteq> None) = (status j = Completed)"
    by (simp add: job_ok_def)
qed

theorem outputPath_iff_completed_witness:
  "\<exists>j j' j''. fst (observations (run example_run initial_world) ! 10) 1 = Some j \<and>
          status j = Pending \<and> outputPath j = None \<and>
          fst (observations (run example_run initial_world) ! 21) 1 = Some j' \<and>
          status j' = Processing \<and> outputPath j' = None \<and>
          fst (observations (run example_run initial_world) ! 23) 1 = Some j'' \<and>
          status j'' = Completed \<and> outputPath j'' \<noteq> None"
proof -
  let ?obs = "observations (run example_run initial_world)"
  note inst = outputPath_iff_completed [of example_run 1]
  from example_pending obtain j where j: "fst (?obs ! 10) 1 = Some j" "status j = Pending"
    by blast
  from example_processing obtain j' where j': "fst (?obs ! 21) 1 = Some j'" "status j' = Processing"
    by blast
  from example_completed obtain j'' where j'': "fst (?obs ! 23) 1 = Some j''" "status j'' = Completed"
    by blast
  have m: "?obs ! 10 \<in> set ?obs" "?obs ! 21 \<in> set ?obs" "?obs ! 23 \<in> set ?obs"
    by (simp_all add: example_member)
  have "(outputPath j \<noteq> None) = (status j = Completed)" using inst m(1) j(1) by blast
  then have a: "outputPath j = None" using j(2) by simp
  have "(outputPath j' \<noteq> None) = (status j' = Completed)" using inst m(2) j'(1) by blast
  then have b: "outputPath j' = None" using j'(2) by simp
  have "(outputPath j'' \<noteq> None) = (status j'' = Completed)" using inst m(3) j''(1) by blast
  then have c: "outputPath j'' \<noteq> None" using j''(2) by simp
  show ?thesis using j j' j'' a b c by blast
qed

end
